theory Spec2Isabelle
  imports Main
begin

section \<open>Characters and the regular-expression classes used by the pipeline\<close>

text \<open>
  Python strings are modelled as HOL strings; a \<^typ>\<open>char\<close> is read as the code point
  of the same number (0 to 255). The classes below are the ones Python's \<^verbatim>\<open>re\<close> module
  uses for \<^verbatim>\<open>str\<close> patterns on these code points: \<^verbatim>\<open>\s\<close> and \<^verbatim>\<open>str.strip\<close> (Unicode
  white space), \<^verbatim>\<open>\d\<close>, \<^verbatim>\<open>\w\<close> (alphanumeric or underscore), the explicit class
  \<^verbatim>\<open>[a-zA-Z0-9_]\<close>, and letter equality under \<^verbatim>\<open>re.IGNORECASE\<close>.
\<close>

definition code :: "char \<Rightarrow> nat" where
  "code c = of_char c"

definition is_space :: "char \<Rightarrow> bool" where
  "is_space c = ((9 \<le> code c \<and> code c \<le> 13) \<or> (28 \<le> code c \<and> code c \<le> 32)
     \<or> code c = 133 \<or> code c = 160)"

definition is_digit :: "char \<Rightarrow> bool" where
  "is_digit c = (48 \<le> code c \<and> code c \<le> 57)"

definition is_ascii_upper :: "char \<Rightarrow> bool" where
  "is_ascii_upper c = (65 \<le> code c \<and> code c \<le> 90)"

definition is_ascii_lower :: "char \<Rightarrow> bool" where
  "is_ascii_lower c = (97 \<le> code c \<and> code c \<le> 122)"

text \<open>The class \<^verbatim>\<open>[a-zA-Z0-9_]\<close> of \<^verbatim>\<open>string_pattern\<close>.\<close>

definition is_bare :: "char \<Rightarrow> bool" where
  "is_bare c = (is_ascii_lower c \<or> is_ascii_upper c \<or> is_digit c \<or> c = CHR ''_'')"

text \<open>\<^verbatim>\<open>\w\<close>: the ASCII word characters and the alphanumeric code points from 128 to 255.\<close>

definition is_word :: "char \<Rightarrow> bool" where
  "is_word c = (is_bare c \<or> code c \<in> {170, 178, 179, 181, 185, 186, 188, 189, 190}
     \<or> (192 \<le> code c \<and> code c \<le> 214) \<or> (216 \<le> code c \<and> code c \<le> 246)
     \<or> 248 \<le> code c)"

text \<open>Simple lower-casing on code points below 256, as \<^verbatim>\<open>re.IGNORECASE\<close> compares letters.\<close>

definition lower_ch :: "char \<Rightarrow> char" where
  "lower_ch c = (if is_ascii_upper c \<or> (192 \<le> code c \<and> code c \<le> 214)
       \<or> (216 \<le> code c \<and> code c \<le> 222)
     then char_of (code c + 32) else c)"

definition ci_eq :: "char \<Rightarrow> char \<Rightarrow> bool" where
  "ci_eq a b = (lower_ch a = lower_ch b)"

definition upper_ascii :: "char \<Rightarrow> char" where
  "upper_ascii c = (if is_ascii_lower c then char_of (code c - 32) else c)"

fun hd_opt :: "'a list \<Rightarrow> 'a option" where
  "hd_opt [] = None"
| "hd_opt (x # xs) = Some x"

text \<open>
  \<^verbatim>\<open>\b\<close>: the position between \<open>a\<close> and \<open>b\<close> is a word boundary when exactly one of the
  two neighbours is a word character; outside the string counts as a non-word character.
\<close>

definition word_opt :: "char option \<Rightarrow> bool" where
  "word_opt a = (case a of None \<Rightarrow> False | Some c \<Rightarrow> is_word c)"

definition boundary :: "char option \<Rightarrow> char option \<Rightarrow> bool" where
  "boundary a b = (word_opt a \<noteq> word_opt b)"

text \<open>The text at the head of \<open>s\<close> matches \<open>n\<close> letter for letter, ignoring case.\<close>

fun ci_prefix :: "string \<Rightarrow> string \<Rightarrow> bool" where
  "ci_prefix [] s = True"
| "ci_prefix (a # n) [] = False"
| "ci_prefix (a # n) (b # s) = (ci_eq a b \<and> ci_prefix n s)"

text \<open>The character just before offset \<open>n\<close> of \<open>s\<close>, where \<open>prev\<close> precedes \<open>s\<close>.\<close>

definition char_before :: "char option \<Rightarrow> string \<Rightarrow> nat \<Rightarrow> char option" where
  "char_before prev s n = (if n = 0 then prev else hd_opt (drop (n - 1) s))"

section \<open>HeuristicFixer: \<^verbatim>\<open>SQLAgent.detect_and_fix_common_issues\<close>\<close>

subsection \<open>Fix 1: quotes around bare words after an equals sign\<close>

text \<open>
  \<^verbatim>\<open>string_pattern = r"= ([a-zA-Z0-9_]+)(?!\s*\(|\s*'|\s*\d|\s*::)"\<close>

  \<open>lookahead_hit\<close> says that one of the four alternatives of the negative lookahead
  matches at the head of \<open>x\<close>: optional white space and then an opening parenthesis, a
  quote, a digit or two colons.
\<close>

definition lookahead_hit :: "string \<Rightarrow> bool" where
  "lookahead_hit x = (case dropWhile is_space x of
       [] \<Rightarrow> False
     | c # r \<Rightarrow> c = CHR ''('' \<or> c = CHR 0x27 \<or> is_digit c
          \<or> (c = CHR '':'' \<and> hd_opt r = Some CHR '':''))"

text \<open>
  The group \<^verbatim>\<open>([a-zA-Z0-9_]+)\<close> is greedy and backtracks: it first takes the whole run
  of class characters and gives them back one at a time, down to one character, until
  the negative lookahead succeeds on what follows. \<open>backtrack k run tail\<close> tries the
  group lengths from \<open>k\<close> downwards, for the run \<open>run\<close> followed by \<open>tail\<close>.
\<close>

fun backtrack :: "nat \<Rightarrow> string \<Rightarrow> string \<Rightarrow> nat option" where
  "backtrack 0 run tail = None"
| "backtrack (Suc k) run tail =
     (if \<not> lookahead_hit (drop (Suc k) run @ tail) then Some (Suc k)
      else backtrack k run tail)"

definition group_len :: "string \<Rightarrow> string \<Rightarrow> nat option" where
  "group_len run tail = backtrack (length run) run tail"

text \<open>A match of \<^verbatim>\<open>string_pattern\<close> at the head of \<open>s\<close>: the group and the text after the match.\<close>

fun string_pattern_match :: "string \<Rightarrow> (string \<times> string) option" where
  "string_pattern_match (a # b # r) =
     (if a = CHR ''='' \<and> b = CHR '' '' then
        (case group_len (takeWhile is_bare r) (dropWhile is_bare r) of
           None \<Rightarrow> None
         | Some k \<Rightarrow> Some (take k r, drop k r))
      else None)"
| "string_pattern_match s = None"

lemma backtrack_bounds:
  "backtrack n run tail = Some k \<Longrightarrow> 1 \<le> k \<and> k \<le> n"
  by (induction n) (auto split: if_splits)

lemma group_len_bounds:
  "group_len run tail = Some k \<Longrightarrow> 1 \<le> k \<and> k \<le> length run"
  unfolding group_len_def by (rule backtrack_bounds)

lemma string_pattern_match_shorter:
  "string_pattern_match s = Some (g, rest) \<Longrightarrow> length rest < length s"
  by (cases s rule: string_pattern_match.cases)
     (auto split: if_splits option.splits dest: group_len_bounds)

text \<open>
  \<^verbatim>\<open>re.sub(string_pattern, add_quotes_to_strings, modified_query)\<close>: scan from the
  left; a match is replaced by \<^verbatim>\<open>f"= '{match.group(1)}'"\<close> and sets \<^verbatim>\<open>was_modified\<close>, and
  the scan goes on after the match; elsewhere the character is copied.
\<close>

function add_quotes_to_strings :: "string \<Rightarrow> string \<times> bool" where
  "add_quotes_to_strings [] = ([], False)"
| "add_quotes_to_strings (c # s) =
     (case string_pattern_match (c # s) of
        Some (g, rest) \<Rightarrow>
          (''= '' @ [CHR 0x27] @ g @ [CHR 0x27] @ fst (add_quotes_to_strings rest), True)
      | None \<Rightarrow>
          (case add_quotes_to_strings s of (out, was_modified) \<Rightarrow> (c # out, was_modified)))"
  by pat_completeness auto
termination
  by (relation "measure length") (auto dest: string_pattern_match_shorter)

text \<open>The text that Fix 1 returns.\<close>

abbreviation quote_pass :: "string \<Rightarrow> string" where
  "quote_pass s \<equiv> fst (add_quotes_to_strings s)"

subsection \<open>Fix 2: table names\<close>

text \<open>
  \<^verbatim>\<open>pattern = r'\b' + re.escape(table_name) + r'[s]?\b'\<close> with \<^verbatim>\<open>re.IGNORECASE\<close>.
  A match at the head of \<open>s\<close> (with \<open>prev\<close> the character before it) is the name, then
  greedily an optional \<^verbatim>\<open>s\<close>, with a word boundary on both sides; the result is the length
  of the match. \<open>must_advance\<close> is the rule of \<^verbatim>\<open>finditer\<close> that refuses an empty match
  right after an empty match.
\<close>

definition table_match_at :: "string \<Rightarrow> char option \<Rightarrow> string \<Rightarrow> bool \<Rightarrow> nat option" where
  "table_match_at name prev s must_advance =
     (let n = length name; rest = drop n s in
      if boundary prev (hd_opt s) \<and> ci_prefix name s then
        if (case rest of [] \<Rightarrow> False
            | c # r \<Rightarrow> ci_eq c CHR ''s'' \<and> boundary (Some c) (hd_opt r))
          then Some (Suc n)
        else if boundary (char_before prev s n) (hd_opt rest) \<and> \<not> (must_advance \<and> n = 0)
          then Some n
        else None
      else None)"

lemma table_match_at_advance:
  "table_match_at name prev s True = Some m \<Longrightarrow> 0 < m"
  by (auto simp: table_match_at_def Let_def split: if_splits)

lemma ci_prefix_length: "ci_prefix n s \<Longrightarrow> length n \<le> length s"
  by (induction n s rule: ci_prefix.induct) auto

lemma table_match_at_le:
  "table_match_at name prev s adv = Some m \<Longrightarrow> m \<le> length s"
  by (auto simp: table_match_at_def Let_def split: if_splits list.splits
      dest: ci_prefix_length) (metis drop_all list.simps(3) not_less_eq_eq)

text \<open>
  \<^verbatim>\<open>re.finditer(pattern, modified_query, re.IGNORECASE)\<close>: the texts \<^verbatim>\<open>match.group(0)\<close>
  of the successive non-overlapping matches, from the left.
\<close>

function finditer_table :: "string \<Rightarrow> char option \<Rightarrow> string \<Rightarrow> bool \<Rightarrow> string list" where
  "finditer_table name prev [] must_advance =
     (case table_match_at name prev [] must_advance of
        Some m \<Rightarrow> [[]]
      | None \<Rightarrow> [])"
| "finditer_table name prev (c # r) must_advance =
     (case table_match_at name prev (c # r) must_advance of
        Some m \<Rightarrow>
          (if 0 < m
           then take m (c # r) #
                finditer_table name (hd_opt (drop (m - 1) (c # r))) (drop m (c # r)) False
           else [] # finditer_table name prev (c # r) True)
      | None \<Rightarrow> finditer_table name (Some c) r False)"
  by pat_completeness auto
termination
  by (relation "measure (\<lambda>(name, prev, s, adv). 2 * length s + (if adv then 0 else 1))")
     (auto dest: table_match_at_advance)

text \<open>\<^verbatim>\<open>str.replace(old, new)\<close>: every non-overlapping occurrence, from the left.\<close>

fun is_prefix :: "string \<Rightarrow> string \<Rightarrow> bool" where
  "is_prefix [] s = True"
| "is_prefix (a # n) [] = False"
| "is_prefix (a # n) (b # s) = (a = b \<and> is_prefix n s)"

lemma is_prefix_length: "is_prefix n s \<Longrightarrow> length n \<le> length s"
  by (induction n s rule: is_prefix.induct) auto

function replace_nonempty :: "string \<Rightarrow> string \<Rightarrow> string \<Rightarrow> string" where
  "replace_nonempty old new [] = []"
| "replace_nonempty old new (c # s) =
     (if old \<noteq> [] \<and> is_prefix old (c # s)
      then new @ replace_nonempty old new (drop (length old) (c # s))
      else c # replace_nonempty old new s)"
  by pat_completeness auto
termination
  by (relation "measure (\<lambda>(old, new, s). length s)") (auto simp: neq_Nil_conv)

definition str_replace :: "string \<Rightarrow> string \<Rightarrow> string \<Rightarrow> string" where
  "str_replace s old new =
     (if old = [] then new @ concat (map (\<lambda>c. c # new) s) else replace_nonempty old new s)"

text \<open>
  The inner loop over the matches. The iterator was created on the query as it was
  before the loop, so the list of matches is fixed while \<^verbatim>\<open>modified_query\<close> changes.
\<close>

fun replace_matches :: "string \<Rightarrow> string list \<Rightarrow> string \<times> bool \<Rightarrow> string \<times> bool" where
  "replace_matches table_name [] acc = acc"
| "replace_matches table_name (m # ms) (modified_query, was_modified) =
     (if m \<noteq> table_name
      then replace_matches table_name ms (str_replace modified_query m table_name, True)
      else replace_matches table_name ms (modified_query, was_modified))"

text \<open>The outer loop over \<^verbatim>\<open>schema_info.keys()\<close>, the table names in dictionary order.\<close>

fun fix_table_names :: "string list \<Rightarrow> string \<times> bool \<Rightarrow> string \<times> bool" where
  "fix_table_names [] acc = acc"
| "fix_table_names (table_name # ts) (modified_query, was_modified) =
     fix_table_names ts
       (replace_matches table_name (finditer_table table_name None modified_query False)
          (modified_query, was_modified))"

definition detect_and_fix_common_issues :: "string \<Rightarrow> string list \<Rightarrow> string \<times> bool" where
  "detect_and_fix_common_issues query schema_keys =
     fix_table_names schema_keys (add_quotes_to_strings query)"

section \<open>SafetyValidator: \<^verbatim>\<open>SQLAgent.validate_query\<close>\<close>

text \<open>
  \<^verbatim>\<open>sqlparse\<close> is a third-party package, so the parser is a parameter: \<open>parse\<close> gives
  the exception text when \<^verbatim>\<open>sqlparse.parse\<close> raises, and otherwise the statements it
  splits the text into, each with its text and with the outcome of \<^verbatim>\<open>get_type()\<close>.
\<close>

record stmt =
  stmt_text :: string
  stmt_type :: "string + string option"

type_synonym sqlparser = "string \<Rightarrow> string + stmt list"

text \<open>\<^verbatim>\<open>settings.BLOCKED_SQL_KEYWORDS\<close>\<close>

definition BLOCKED_SQL_KEYWORDS :: "string list" where
  "BLOCKED_SQL_KEYWORDS = [''INSERT'', ''UPDATE'', ''DELETE'', ''DROP'', ''CREATE'', ''ALTER'',
     ''TRUNCATE'', ''GRANT'', ''REVOKE'', ''COMMIT'', ''ROLLBACK'']"

text \<open>\<^verbatim>\<open>query.strip()\<close>\<close>

definition strip :: "string \<Rightarrow> string" where
  "strip s = rev (dropWhile is_space (rev (dropWhile is_space s)))"

text \<open>
  \<^verbatim>\<open>re.search(r'\b' + keyword + r'\b', query, re.IGNORECASE)\<close>: a match at the head of
  \<open>s\<close>, then the search over every position.
\<close>

definition keyword_match_at :: "string \<Rightarrow> char option \<Rightarrow> string \<Rightarrow> bool" where
  "keyword_match_at keyword prev s =
     (boundary prev (hd_opt s) \<and> ci_prefix keyword s
      \<and> boundary (char_before prev s (length keyword)) (hd_opt (drop (length keyword) s)))"

fun search_from :: "string \<Rightarrow> char option \<Rightarrow> string \<Rightarrow> bool" where
  "search_from keyword prev [] = keyword_match_at keyword prev []"
| "search_from keyword prev (c # r) =
     (keyword_match_at keyword prev (c # r) \<or> search_from keyword (Some c) r)"

definition re_search_keyword :: "string \<Rightarrow> string \<Rightarrow> bool" where
  "re_search_keyword keyword query = search_from keyword None query"

text \<open>
  \<^verbatim>\<open>not stmt.get_type() or stmt.get_type().upper() != 'SELECT'\<close>. On code points below
  256 only the ASCII letters can upper-case to the letters of \<^verbatim>\<open>SELECT\<close>.
\<close>

definition not_select :: "string option \<Rightarrow> bool" where
  "not_select t = (case t of None \<Rightarrow> True
     | Some ty \<Rightarrow> if ty = [] then True else map upper_ascii ty \<noteq> ''SELECT'')"

definition validate_query :: "sqlparser \<Rightarrow> string \<Rightarrow> bool \<times> string" where
  "validate_query parse query =
     (case parse (strip query) of
        Inl e \<Rightarrow> (False, ''Validation error: '' @ e)
      | Inr [] \<Rightarrow> (False, ''Empty or invalid SQL query'')
      | Inr (st # others) \<Rightarrow>
          (case stmt_type st of
             Inl e \<Rightarrow> (False, ''Validation error: '' @ e)
           | Inr t \<Rightarrow>
               if not_select t then (False, ''Only SELECT queries are allowed'')
               else (case find (\<lambda>keyword. re_search_keyword keyword query) BLOCKED_SQL_KEYWORDS of
                       Some keyword \<Rightarrow> (False, ''Disallowed SQL keyword found: '' @ keyword)
                     | None \<Rightarrow> (True, ''Query validation successful''))))"

section \<open>The collaborators and the trace of a request\<close>

text \<open>
  A result row is a \<^verbatim>\<open>RealDictRow\<close>: column names with their values. A value is
  \<^verbatim>\<open>None\<close>, a string, or another object, known by a number.
\<close>

datatype cell = CNone | CStr string | CObj nat

type_synonym row = "(string \<times> cell) list"

text \<open>
  The arguments of a tool call after \<^verbatim>\<open>json_utils.loads\<close>: the tool schemas declare every
  field as a string, so a field is a string or \<^verbatim>\<open>null\<close>, or is missing.
\<close>

datatype jval = JNull | JStr string

record tool_call =
  fn_name :: string
  fn_arguments :: "string + (string \<rightharpoonup> jval)"

datatype llm_call = GenerateSQL | FixSQL | Summarize

text \<open>
  \<open>repair_stage\<close> is a ghost value: it records which caller asked \<^verbatim>\<open>debug_query\<close> for a
  repair, \<^verbatim>\<open>SQLAgent.process_query\<close> after a failed validation or
  \<^verbatim>\<open>QueryService.process_query\<close> after a failed execution.
\<close>

datatype repair_stage = AfterValidation | AfterExecution

datatype event =
    EvCompletion llm_call string
  | EvValidate string bool
  | EvExecute string "string + row list"
  | EvDebug repair_stage string string

text \<open>
  Everything outside the pipeline is an oracle that may depend on all that happened
  before in the request (the events so far). A raised exception is the text
  \<^verbatim>\<open>str(e)\<close>: \<open>Some e\<close> or \<open>Inl e\<close>.
  \<^item> \<open>parse\<close>: \<^verbatim>\<open>sqlparse\<close>;
  \<^item> \<open>schema_keys\<close>: \<^verbatim>\<open>self.schema_info.keys()\<close>; \<open>model_name\<close>: \<^verbatim>\<open>settings.LLM_MODEL\<close>;
  \<^item> \<open>llm_client\<close>, \<open>agent_client\<close>: \<^verbatim>\<open>_get_or_initialize_client\<close> of the two services;
  \<^item> \<open>build_prompt\<close>: the prompt lookup and \<^verbatim>\<open>str.format\<close> before a completion call;
  \<^item> \<open>tool_completion\<close>: \<^verbatim>\<open>client.chat.completions.create\<close> with a forced tool, giving
    \<^verbatim>\<open>response.choices[0].message.tool_calls\<close> (\<^verbatim>\<open>None\<close> is the empty list);
  \<^item> \<open>text_completion\<close>: the same call without tools, giving \<^verbatim>\<open>message.content\<close>;
  \<^item> \<open>execute\<close>: \<^verbatim>\<open>postgres_client.execute_query\<close>;
  \<^item> \<open>json_dumps\<close>, \<open>py_str\<close>, \<open>py_repr\<close>: \<^verbatim>\<open>json_utils.dumps\<close>, \<^verbatim>\<open>str\<close> and
    \<^verbatim>\<open>repr\<close> on values that come from the database driver.
\<close>

record world =
  parse :: sqlparser
  schema_keys :: "string list"
  model_name :: string
  llm_client :: "event list \<Rightarrow> string option"
  agent_client :: "event list \<Rightarrow> string option"
  build_prompt :: "event list \<Rightarrow> llm_call \<Rightarrow> string option"
  tool_completion :: "event list \<Rightarrow> string \<Rightarrow> llm_call \<Rightarrow> string + tool_call list"
  text_completion :: "event list \<Rightarrow> string + string option"
  execute :: "event list \<Rightarrow> string \<Rightarrow> string + row list"
  json_dumps :: "row list \<Rightarrow> string + string"
  py_str :: "nat \<Rightarrow> string + string"
  py_repr :: "row list \<Rightarrow> string + string"

text \<open>
  The two tool calls share one shape: call the configured model; when that raises and
  the configured model is not the fallback model, call the fallback model once, whose
  exception is not caught here. The result comes with the completion calls made.
\<close>

definition create_with_fallback ::
  "world \<Rightarrow> event list \<Rightarrow> llm_call \<Rightarrow> string \<Rightarrow> (string + tool_call list) \<times> event list" where
  "create_with_fallback W h kind fallback_model =
     (case tool_completion W h (model_name W) kind of
        Inr resp \<Rightarrow> (Inr resp, [EvCompletion kind (model_name W)])
      | Inl model_error \<Rightarrow>
          if model_name W \<noteq> fallback_model
          then (tool_completion W (h @ [EvCompletion kind (model_name W)]) fallback_model kind,
                [EvCompletion kind (model_name W), EvCompletion kind fallback_model])
          else (Inl model_error, [EvCompletion kind (model_name W)]))"

text \<open>Python truth of \<^verbatim>\<open>arguments.get(key)\<close>, and its text when it is a string.\<close>

definition truthy :: "jval option \<Rightarrow> bool" where
  "truthy v = (case v of Some (JStr s) \<Rightarrow> s \<noteq> [] | _ \<Rightarrow> False)"

definition text_of :: "jval option \<Rightarrow> string" where
  "text_of v = (case v of Some (JStr s) \<Rightarrow> s | _ \<Rightarrow> [])"

section \<open>CandidateGenerator: \<^verbatim>\<open>LLMService.generate_sql_query\<close>\<close>

text \<open>The part after \<^verbatim>\<open>arguments = json_utils.loads(...)\<close>.\<close>

definition generation_outcome :: "(string \<rightharpoonup> jval) \<Rightarrow> bool \<times> string" where
  "generation_outcome arguments =
     (let sql_query = arguments ''query''; error = arguments ''error'' in
      if truthy error then (False, text_of error)
      else if \<not> truthy sql_query then (False, ''Generated SQL query is empty'')
      else (True, text_of sql_query))"

definition generation_response :: "tool_call list \<Rightarrow> bool \<times> string" where
  "generation_response tool_calls =
     (case tool_calls of
        [] \<Rightarrow> (False, ''Failed to generate SQL query'')
      | tc # others \<Rightarrow>
          if fn_name tc = ''generate_sql_query'' then
            (case fn_arguments tc of
               Inl e \<Rightarrow> (False, ''Error: '' @ e)
             | Inr arguments \<Rightarrow> generation_outcome arguments)
          else (False, ''Failed to generate SQL query''))"

definition generate_sql_query :: "world \<Rightarrow> event list \<Rightarrow> (bool \<times> string) \<times> event list" where
  "generate_sql_query W h =
     (case llm_client W h of
        Some e \<Rightarrow> ((False, ''Error: '' @ e), [])
      | None \<Rightarrow>
          (case build_prompt W h GenerateSQL of
             Some e \<Rightarrow> ((False, ''Error: '' @ e), [])
           | None \<Rightarrow>
               (case create_with_fallback W h GenerateSQL ''gpt-4'' of
                  (Inl e, evs) \<Rightarrow> ((False, ''Error: '' @ e), evs)
                | (Inr tool_calls, evs) \<Rightarrow> (generation_response tool_calls, evs))))"

section \<open>DebugRepairer: \<^verbatim>\<open>SQLAgent.debug_query\<close>\<close>

definition debug_outcome :: "sqlparser \<Rightarrow> (string \<rightharpoonup> jval) \<Rightarrow> (bool \<times> string) \<times> event list" where
  "debug_outcome prs arguments =
     (let fixed_query = arguments ''fixed_query''; error = arguments ''error'' in
      if truthy error then ((False, text_of error), [])
      else if \<not> truthy fixed_query then ((False, ''Failed to generate a fixed query''), [])
      else (case validate_query prs (text_of fixed_query) of (is_valid, validation_result) \<Rightarrow>
              if \<not> is_valid
              then ((False, validation_result), [EvValidate (text_of fixed_query) False])
              else ((True, text_of fixed_query), [EvValidate (text_of fixed_query) True])))"

definition debug_response :: "sqlparser \<Rightarrow> tool_call list \<Rightarrow> (bool \<times> string) \<times> event list" where
  "debug_response prs tool_calls =
     (case tool_calls of
        [] \<Rightarrow> ((False, ''Failed to debug query''), [])
      | tc # others \<Rightarrow>
          if fn_name tc = ''fix_sql_query'' then
            (case fn_arguments tc of
               Inl e \<Rightarrow> ((False, ''Debugging error: '' @ e), [])
             | Inr arguments \<Rightarrow> debug_outcome prs arguments)
          else ((False, ''Failed to debug query''), []))"

definition debug_query ::
  "world \<Rightarrow> event list \<Rightarrow> repair_stage \<Rightarrow> string \<Rightarrow> string \<Rightarrow> (bool \<times> string) \<times> event list" where
  "debug_query W h stage query error_message =
     (let started = [EvDebug stage query error_message] in
      case agent_client W (h @ started) of
        Some e \<Rightarrow> ((False, ''Debugging error: '' @ e), started)
      | None \<Rightarrow>
          (case build_prompt W (h @ started) FixSQL of
             Some e \<Rightarrow> ((False, ''Debugging error: '' @ e), started)
           | None \<Rightarrow>
               (case create_with_fallback W (h @ started) FixSQL ''gpt-3.5-turbo'' of
                  (Inl e, evs) \<Rightarrow> ((False, ''Debugging error: '' @ e), started @ evs)
                | (Inr tool_calls, evs) \<Rightarrow>
                    (case debug_response (parse W) tool_calls of
                       (res, vs) \<Rightarrow> (res, started @ evs @ vs)))))"

section \<open>\<^verbatim>\<open>SQLAgent.process_query\<close>\<close>

text \<open>
  The heuristic fix, the validation, and on an invalid query: the query is run on the
  database "to get a more specific error"; when that raises, one repair with the
  execution error, and a second validation of the repaired query.
\<close>

definition agent_process_query ::
  "world \<Rightarrow> event list \<Rightarrow> string \<Rightarrow> (bool \<times> string) \<times> event list" where
  "agent_process_query W h query0 =
     (case detect_and_fix_common_issues query0 (schema_keys W) of (fixed_query, was_modified) \<Rightarrow>
      let query = (if was_modified then fixed_query else query0) in
      case validate_query (parse W) query of (is_valid, validation_result) \<Rightarrow>
      if is_valid then ((True, query), [EvValidate query True])
      else
        (case execute W (h @ [EvValidate query False]) query of
           Inr rows \<Rightarrow> ((True, query), [EvValidate query False, EvExecute query (Inr rows)])
         | Inl exec_error \<Rightarrow>
             (let evs = [EvValidate query False, EvExecute query (Inl exec_error)] in
              case debug_query W (h @ evs) AfterValidation query exec_error of
                ((debug_success, debug_result), dvs) \<Rightarrow>
                  if debug_success then
                    (case validate_query (parse W) debug_result of (is_valid2, validation_result2) \<Rightarrow>
                       if is_valid2
                       then ((True, debug_result), evs @ dvs @ [EvValidate debug_result True])
                       else ((False, debug_result), evs @ dvs @ [EvValidate debug_result False]))
                  else ((False, validation_result), evs @ dvs))))"

section \<open>The result envelope: \<^verbatim>\<open>MockResponseGenerator\<close>\<close>

text \<open>
  The response dictionary. A key that is missing or holds \<^verbatim>\<open>None\<close> is \<open>None\<close>; the
  \<^verbatim>\<open>error\<close> entry is the pair of its \<^verbatim>\<open>type\<close> and \<^verbatim>\<open>message\<close>.
\<close>

record pipeline_result =
  res_success :: bool
  res_message :: "string option"
  res_query :: "string option"
  res_original_query :: "string option"
  res_was_debugged :: "bool option"
  res_data :: "row list option"
  res_summary :: "string option"
  res_record_count :: "nat option"
  res_error :: "(string \<times> string) option"
  res_mock :: "bool option"

definition error_responses :: "(string \<times> string) list" where
  "error_responses =
    [(''sql_generation_failed'', ''I couldn't generate a valid SQL query for your question. Please try rephrasing or providing more context.''),
     (''sql_validation_failed'', ''The generated SQL query doesn't meet security requirements. Only read-only queries are allowed.''),
     (''database_connection_error'', ''There was an issue connecting to the database. Please try again later.''),
     (''execution_error'', ''An error occurred while executing the query. Please check your question for clarity.''),
     (''insufficient_permissions'', ''You don't have permission to access this information.''),
     (''empty_results'', ''The query executed successfully but returned no results.''),
     (''summarization_failed'', ''I couldn't generate a summary for the query results.''),
     (''general_error'', ''An unexpected error occurred. Please try again later.'')]"

definition default_message :: "string \<Rightarrow> string" where
  "default_message error_type =
     (case map_of error_responses error_type of
        Some m \<Rightarrow> m
      | None \<Rightarrow> ''An unexpected error occurred. Please try again later.'')"

definition get_mock_response :: "string \<Rightarrow> string option \<Rightarrow> pipeline_result" where
  "get_mock_response error_type custom_message =
     (let error_message =
        (case custom_message of
           Some m \<Rightarrow> if m \<noteq> [] then m else default_message error_type
         | None \<Rightarrow> default_message error_type)
      in \<lparr> res_success = False, res_message = None, res_query = None,
           res_original_query = None, res_was_debugged = None, res_data = None,
           res_summary = None, res_record_count = None,
           res_error = Some (error_type, error_message), res_mock = Some True \<rparr>)"

definition get_empty_results_response :: "string option \<Rightarrow> pipeline_result" where
  "get_empty_results_response query =
     \<lparr> res_success = True,
       res_message = Some ''Query executed successfully but returned no results.'',
       res_query = query, res_original_query = None, res_was_debugged = None,
       res_data = Some [], res_summary = Some ''No data was found for your query.'',
       res_record_count = None, res_error = None, res_mock = None \<rparr>"

section \<open>ResultSummarizer: \<^verbatim>\<open>LLMService.summarize_query_results\<close>\<close>

function show_nat :: "nat \<Rightarrow> string" where
  "show_nat n = (if n < 10 then [char_of (48 + n)]
                 else show_nat (n div 10) @ [char_of (48 + n mod 10)])"
  by pat_completeness auto
termination
  by (relation "measure id") auto

declare show_nat.simps [simp del]

fun join :: "string \<Rightarrow> string list \<Rightarrow> string" where
  "join sep [] = []"
| "join sep [x] = x"
| "join sep (x # y # ys) = x @ sep @ join sep (y # ys)"

record markdown_data =
  markdown_results :: string
  total_rows :: nat
  displayed_rows :: nat
  md_error :: "string option"

text \<open>The column names of the displayed rows, in the order they are first seen.\<close>

definition add_columns :: "row \<Rightarrow> string list \<Rightarrow> string list" where
  "add_columns r columns =
     fold (\<lambda>key cols. if key \<in> set cols then cols else cols @ [key]) (map fst r) columns"

definition all_columns :: "row list \<Rightarrow> string list" where
  "all_columns display_results = fold add_columns display_results []"

text \<open>One cell; \<^verbatim>\<open>str(val)\<close> of an object of the driver may raise.\<close>

definition cell_text :: "world \<Rightarrow> row \<Rightarrow> string \<Rightarrow> string + string" where
  "cell_text W r col =
     (case map_of r col of
        None \<Rightarrow> Inr []
      | Some CNone \<Rightarrow> Inr []
      | Some (CStr val) \<Rightarrow>
          Inr (if CHR ''|'' \<in> set val \<or> CHR 0x0A \<in> set val
               then [CHR 0x60] @ val @ [CHR 0x60] else val)
      | Some (CObj obj) \<Rightarrow> py_str W obj)"

fun row_values :: "world \<Rightarrow> row \<Rightarrow> string list \<Rightarrow> string + string list" where
  "row_values W r [] = Inr []"
| "row_values W r (col # cols) =
     (case cell_text W r col of
        Inl e \<Rightarrow> Inl e
      | Inr v \<Rightarrow> (case row_values W r cols of Inl e \<Rightarrow> Inl e | Inr vs \<Rightarrow> Inr (v # vs)))"

fun markdown_rows :: "world \<Rightarrow> row list \<Rightarrow> string list \<Rightarrow> string \<Rightarrow> string + string" where
  "markdown_rows W [] columns markdown = Inr markdown"
| "markdown_rows W (r # rs) columns markdown =
     (case row_values W r columns of
        Inl e \<Rightarrow> Inl e
      | Inr vals \<Rightarrow>
          markdown_rows W rs columns (markdown @ ''| '' @ join '' | '' vals @ '' |'' @ [CHR 0x0A]))"

definition format_results_to_markdown :: "world \<Rightarrow> row list \<Rightarrow> nat \<Rightarrow> markdown_data" where
  "format_results_to_markdown W results max_rows =
     (if length results = 0 then
        \<lparr> markdown_results = ''No results found'', total_rows = 0, displayed_rows = 0,
          md_error = None \<rparr>
      else
        let display_results = take max_rows results;
            columns = all_columns display_results in
        if columns = [] then
          \<lparr> markdown_results = ''Results structure could not be determined'',
            total_rows = length results, displayed_rows = 0, md_error = None \<rparr>
        else
          (case markdown_rows W display_results columns
                  (''| '' @ join '' | '' columns @ '' |'' @ [CHR 0x0A]
                   @ ''| '' @ join '' | '' (map (\<lambda>_. ''---'') columns) @ '' |'' @ [CHR 0x0A]) of
             Inr markdown \<Rightarrow>
               \<lparr> markdown_results = markdown, total_rows = length results,
                 displayed_rows = length display_results, md_error = None \<rparr>
           | Inl e \<Rightarrow>
               \<lparr> markdown_results = ''Error formatting results'', total_rows = length results,
                 displayed_rows = 0, md_error = Some e \<rparr>))"

text \<open>\<^verbatim>\<open>mock_response.get_mock_response("summarization_failed")["error"]["message"]\<close>\<close>

definition summarization_fallback :: string where
  "summarization_fallback =
     (case res_error (get_mock_response ''summarization_failed'' None) of
        Some (t, m) \<Rightarrow> m | None \<Rightarrow> [])"

text \<open>The text appended to the summary after the completion call.\<close>

definition with_results :: "world \<Rightarrow> string \<Rightarrow> row list \<Rightarrow> nat \<Rightarrow> string" where
  "with_results W summary results max_rows =
     (let markdown_data = format_results_to_markdown W results max_rows in
      case md_error markdown_data of
        Some e \<Rightarrow>
          (case py_repr W (take max_rows results) of
             Inl e' \<Rightarrow> summarization_fallback
           | Inr dump \<Rightarrow> summary @ [CHR 0x0A, CHR 0x0A]
               @ ''Here are the results (could not format as table due to error):''
               @ [CHR 0x0A] @ dump)
      | None \<Rightarrow>
          if total_rows markdown_data > displayed_rows markdown_data
          then summary @ [CHR 0x0A, CHR 0x0A] @ ''Here are the top ''
               @ show_nat (displayed_rows markdown_data) @ '' results out of ''
               @ show_nat (total_rows markdown_data) @ '' total rows:'' @ [CHR 0x0A, CHR 0x0A]
               @ markdown_results markdown_data
          else summary @ [CHR 0x0A, CHR 0x0A] @ ''Here are all ''
               @ show_nat (total_rows markdown_data) @ '' results:'' @ [CHR 0x0A, CHR 0x0A]
               @ markdown_results markdown_data)"

definition summarize_query_results ::
  "world \<Rightarrow> event list \<Rightarrow> row list \<Rightarrow> nat \<Rightarrow> string \<times> event list" where
  "summarize_query_results W h results max_rows =
     (case llm_client W h of
        Some e \<Rightarrow> (summarization_fallback, [])
      | None \<Rightarrow>
          if results = [] then (''The query returned no results.'', [])
          else
            (case json_dumps W (take 10 results) of
               Inl e \<Rightarrow> (summarization_fallback, [])
             | Inr results_str \<Rightarrow>
                 (case build_prompt W h Summarize of
                    Some e \<Rightarrow> (summarization_fallback, [])
                  | None \<Rightarrow>
                      (case text_completion W h of
                         Inl e \<Rightarrow> (summarization_fallback, [EvCompletion Summarize (model_name W)])
                       | Inr None \<Rightarrow>
                           (summarization_fallback, [EvCompletion Summarize (model_name W)])
                       | Inr (Some content) \<Rightarrow>
                           (with_results W (strip content) results max_rows,
                            [EvCompletion Summarize (model_name W)])))))"

section \<open>PipelineOrchestrator: \<^verbatim>\<open>QueryService.process_query\<close>\<close>

definition success_response :: "string \<Rightarrow> row list \<Rightarrow> string \<Rightarrow> pipeline_result" where
  "success_response processed_sql query_results summary =
     \<lparr> res_success = True, res_message = None, res_query = Some processed_sql,
       res_original_query = None, res_was_debugged = None, res_data = Some query_results,
       res_summary = Some summary, res_record_count = Some (length query_results),
       res_error = None, res_mock = None \<rparr>"

definition debugged_response ::
  "string \<Rightarrow> string \<Rightarrow> row list \<Rightarrow> string \<Rightarrow> pipeline_result" where
  "debugged_response debug_result processed_sql query_results summary =
     \<lparr> res_success = True, res_message = None, res_query = Some debug_result,
       res_original_query = Some processed_sql, res_was_debugged = Some True,
       res_data = Some query_results, res_summary = Some summary,
       res_record_count = Some (length query_results), res_error = None, res_mock = None \<rparr>"

text \<open>
  Step 3 and 4 with the handler of the execution error: the \<^verbatim>\<open>try\<close> block around
  \<^verbatim>\<open>postgres_client.execute_query(processed_sql)\<close>.
\<close>

definition execute_and_summarize ::
  "world \<Rightarrow> event list \<Rightarrow> string \<Rightarrow> pipeline_result \<times> event list" where
  "execute_and_summarize W h processed_sql =
     (case execute W h processed_sql of
        Inr query_results \<Rightarrow>
          (let evs = [EvExecute processed_sql (Inr query_results)] in
           if query_results = [] then (get_empty_results_response (Some processed_sql), evs)
           else (case summarize_query_results W (h @ evs) query_results 10 of
                   (summary, svs) \<Rightarrow>
                     (success_response processed_sql query_results summary, evs @ svs)))
      | Inl e \<Rightarrow>
          (let evs = [EvExecute processed_sql (Inl e)] in
           case debug_query W (h @ evs) AfterExecution processed_sql e of
             ((debug_success, debug_result), dvs) \<Rightarrow>
               if debug_success then
                 (case execute W (h @ evs @ dvs) debug_result of
                    Inr query_results \<Rightarrow>
                      (let evs2 = evs @ dvs @ [EvExecute debug_result (Inr query_results)] in
                       if query_results = []
                       then (get_empty_results_response (Some debug_result), evs2)
                       else (case summarize_query_results W (h @ evs2) query_results 10 of
                               (summary, svs) \<Rightarrow>
                                 (debugged_response debug_result processed_sql query_results
                                    summary, evs2 @ svs)))
                  | Inl debug_exec_error \<Rightarrow>
                      (get_mock_response ''execution_error'' (Some e),
                       evs @ dvs @ [EvExecute debug_result (Inl debug_exec_error)]))
               else (get_mock_response ''execution_error'' (Some e), evs @ dvs)))"

text \<open>
  The whole request: the envelope returned and the trace of the request. The world
  \<open>W\<close> holds the question and the customer with everything else the collaborators
  depend on. No step of the model raises to the outermost handler, which builds
  \<^verbatim>\<open>get_mock_response("general_error", str(e))\<close>.
\<close>

definition service_process_query :: "world \<Rightarrow> pipeline_result \<times> event list" where
  "service_process_query W =
     (case generate_sql_query W [] of
        ((generation_success, sql_result), gvs) \<Rightarrow>
          if \<not> generation_success
          then (get_mock_response ''sql_generation_failed'' (Some sql_result), gvs)
          else
            (case agent_process_query W gvs sql_result of
               ((processing_success, processed_sql), avs) \<Rightarrow>
                 if \<not> processing_success
                 then (get_mock_response ''sql_validation_failed'' (Some processed_sql),
                       gvs @ avs)
                 else
                   (case execute_and_summarize W (gvs @ avs) processed_sql of
                      (response, xvs) \<Rightarrow> (response, gvs @ avs @ xvs))))"

section \<open>Properties of traces and envelopes\<close>

text \<open>The envelope invariant: which of \<^verbatim>\<open>data\<close>, \<^verbatim>\<open>query\<close> and \<^verbatim>\<open>error\<close> are present.\<close>

definition envelope_ok :: "pipeline_result \<Rightarrow> bool" where
  "envelope_ok r =
     (((res_data r \<noteq> None) \<noteq> (res_error r \<noteq> None))
      \<and> (res_success r \<longrightarrow> res_data r \<noteq> None \<and> res_query r \<noteq> None \<and> res_error r = None)
      \<and> (\<not> res_success r \<longrightarrow> res_error r \<noteq> None \<and> res_data r = None))"

fun is_repair :: "repair_stage \<Rightarrow> event \<Rightarrow> bool" where
  "is_repair st (EvDebug st' q e) = (st' = st)"
| "is_repair st ev = False"

fun is_debug :: "event \<Rightarrow> bool" where
  "is_debug (EvDebug st q e) = True"
| "is_debug ev = False"

fun is_execute :: "event \<Rightarrow> bool" where
  "is_execute (EvExecute q r) = True"
| "is_execute ev = False"

fun is_failed_execute :: "event \<Rightarrow> bool" where
  "is_failed_execute (EvExecute q (Inl e)) = True"
| "is_failed_execute ev = False"

fun is_failed_validate :: "event \<Rightarrow> bool" where
  "is_failed_validate (EvValidate q ok) = (\<not> ok)"
| "is_failed_validate ev = False"

fun is_summarize_call :: "event \<Rightarrow> bool" where
  "is_summarize_call (EvCompletion kind m) = (kind = Summarize)"
| "is_summarize_call ev = False"

text \<open>The number of repairs a stage asked for, and the events after its first repair.\<close>

definition repairs :: "repair_stage \<Rightarrow> event list \<Rightarrow> nat" where
  "repairs st tr = length (filter (is_repair st) tr)"

definition after_repair :: "repair_stage \<Rightarrow> event list \<Rightarrow> event list" where
  "after_repair st tr = drop 1 (dropWhile (\<lambda>ev. \<not> is_repair st ev) tr)"

text \<open>The last call of the executor in a trace: the statement and what it returned.\<close>

fun last_execute :: "event list \<Rightarrow> (string \<times> (string + row list)) option" where
  "last_execute [] = None"
| "last_execute (EvExecute q r # tr) =
     (case last_execute tr of None \<Rightarrow> Some (q, r) | Some x \<Rightarrow> Some x)"
| "last_execute (ev # tr) = last_execute tr"

text \<open>
  Shapes of traces. An internal event is a completion call other than the summarizer's, or
  a validation. A list of events is clean when all are internal and no validation in it
  failed; it ends failed when it is clean up to a last, failed validation. \<open>repaired\<close>
  relates the outcome of \<^verbatim>\<open>debug_query\<close> to the events after its start.
\<close>

fun is_internal :: "event \<Rightarrow> bool" where
  "is_internal (EvCompletion k m) = (k \<noteq> Summarize)"
| "is_internal (EvValidate q ok) = True"
| "is_internal ev = False"

fun is_completion_of :: "llm_call \<Rightarrow> event \<Rightarrow> bool" where
  "is_completion_of k (EvCompletion k' m) = (k' = k)"
| "is_completion_of k ev = False"

definition clean :: "event list \<Rightarrow> bool" where
  "clean vs = (\<forall>x\<in>set vs. is_internal x \<and> \<not> is_failed_validate x)"

definition ends_failed :: "event list \<Rightarrow> bool" where
  "ends_failed vs = (\<exists>pre q. vs = pre @ [EvValidate q False] \<and> clean pre)"

definition repaired :: "sqlparser \<Rightarrow> (bool \<times> string) \<Rightarrow> event list \<Rightarrow> bool" where
  "repaired prs res vs =
     (if fst res then clean vs \<and> fst (validate_query prs (snd res))
      else clean vs \<or> ends_failed vs)"

text \<open>The outcomes of the execution stage with the events they leave.\<close>

inductive exec_shape :: "world \<Rightarrow> string \<Rightarrow> pipeline_result \<Rightarrow> event list \<Rightarrow> bool" where
  first_empty:
    "exec_shape W p (get_empty_results_response (Some p)) [EvExecute p (Inr [])]"
| first_rows:
    "rows \<noteq> [] \<Longrightarrow> \<forall>x\<in>set svs. is_completion_of Summarize x \<Longrightarrow>
     exec_shape W p (success_response p rows summary) (EvExecute p (Inr rows) # svs)"
| no_repair:
    "repaired (parse W) (False, dres) rest \<Longrightarrow>
     exec_shape W p (get_mock_response ''execution_error'' (Some e))
       ([EvExecute p (Inl e), EvDebug AfterExecution p e] @ rest)"
| repair_empty:
    "clean rest \<Longrightarrow> fst (validate_query (parse W) dq) \<Longrightarrow>
     exec_shape W p (get_empty_results_response (Some dq))
       ([EvExecute p (Inl e), EvDebug AfterExecution p e] @ rest @ [EvExecute dq (Inr [])])"
| repair_rows:
    "clean rest \<Longrightarrow> fst (validate_query (parse W) dq) \<Longrightarrow> rows \<noteq> [] \<Longrightarrow>
     \<forall>x\<in>set svs. is_completion_of Summarize x \<Longrightarrow>
     exec_shape W p (debugged_response dq p rows summary)
       ([EvExecute p (Inl e), EvDebug AfterExecution p e] @ rest
          @ EvExecute dq (Inr rows) # svs)"
| repair_failed:
    "clean rest \<Longrightarrow> fst (validate_query (parse W) dq) \<Longrightarrow>
     exec_shape W p (get_mock_response ''execution_error'' (Some e))
       ([EvExecute p (Inl e), EvDebug AfterExecution p e] @ rest @ [EvExecute dq (Inl e')])"


text \<open>A failure envelope of a given error type.\<close>

definition failed_with :: "string \<Rightarrow> pipeline_result \<Rightarrow> bool" where
  "failed_with error_type r = (\<not> res_success r \<and> (\<exists>m. res_error r = Some (error_type, m)))"


section \<open>Sample collaborators\<close>

text \<open>
  A small stand-in for \<^verbatim>\<open>sqlparse\<close>, to run the pipeline on examples: the statements
  are the pieces between semicolons that are not blank, and the type of a statement is
  its first word in upper case when that is a statement keyword, and \<^verbatim>\<open>UNKNOWN\<close>
  otherwise. The theorems below that speak of every parser do not depend on it.
\<close>

fun split_statements :: "string \<Rightarrow> string \<Rightarrow> string list" where
  "split_statements cur [] = [cur]"
| "split_statements cur (c # r) =
     (if c = CHR '';'' then cur # split_statements [] r else split_statements (cur @ [c]) r)"

definition statement_type :: "string \<Rightarrow> string" where
  "statement_type s =
     (let w = map upper_ascii (takeWhile is_word (dropWhile is_space s)) in
      if w \<in> set [''SELECT'', ''INSERT'', ''UPDATE'', ''DELETE'', ''DROP'', ''CREATE'', ''ALTER'']
      then w else ''UNKNOWN'')"

definition sample_parse :: sqlparser where
  "sample_parse s =
     Inr (map (\<lambda>t. \<lparr> stmt_text = t, stmt_type = Inr (Some (statement_type t)) \<rparr>)
            (filter (\<lambda>t. strip t \<noteq> []) (split_statements [] s)))"

text \<open>
  A world where the generator answers \<open>generated\<close>, the repairer answers \<open>fixed\<close>, the
  summarizer answers \<open>content\<close> and the database is \<open>db\<close>; nothing else fails.
\<close>

definition sample_world ::
  "string list \<Rightarrow> (string \<rightharpoonup> jval) \<Rightarrow> (string \<rightharpoonup> jval) \<Rightarrow> string
     \<Rightarrow> (event list \<Rightarrow> string \<Rightarrow> string + row list) \<Rightarrow> world" where
  "sample_world tables generated fixed content db =
     \<lparr> parse = sample_parse, schema_keys = tables, model_name = ''gpt-4o'',
       llm_client = (\<lambda>h. None), agent_client = (\<lambda>h. None),
       build_prompt = (\<lambda>h kind. None),
       tool_completion = (\<lambda>h m kind.
          if kind = GenerateSQL
          then Inr [\<lparr> fn_name = ''generate_sql_query'', fn_arguments = Inr generated \<rparr>]
          else Inr [\<lparr> fn_name = ''fix_sql_query'', fn_arguments = Inr fixed \<rparr>]),
       text_completion = (\<lambda>h. Inr (Some content)),
       execute = db,
       json_dumps = (\<lambda>rows. Inr ''[]''),
       py_str = (\<lambda>obj. Inr ''object''),
       py_repr = (\<lambda>rows. Inr ''[...]'') \<rparr>"

text \<open>A database with one table of one row, which knows no other table.\<close>

definition users_db :: "event list \<Rightarrow> string \<Rightarrow> string + row list" where
  "users_db h q =
     (if q = ''SELECT * FROM users'' then Inr [[(''id'', CObj 1), (''name'', CStr ''Ann'')]]
      else if q = ''SELECT * FROM users WHERE id < 0'' then Inr []
      else Inl ''relation does not exist'')"

text \<open>A database that runs whatever statement it is given and returns one row.\<close>

definition obedient_db :: "event list \<Rightarrow> string \<Rightarrow> string + row list" where
  "obedient_db h q = Inr [[(''id'', CObj 1)]]"

text \<open>
  The world of \<open>sample_world\<close> with a repairer that answers \<open>fixed\<close> until the execution
  stage has asked for a repair, and \<open>fixed_again\<close> from then on.
\<close>

definition second_answer_world ::
  "string list \<Rightarrow> (string \<rightharpoonup> jval) \<Rightarrow> (string \<rightharpoonup> jval) \<Rightarrow> (string \<rightharpoonup> jval) \<Rightarrow> string
     \<Rightarrow> (event list \<Rightarrow> string \<Rightarrow> string + row list) \<Rightarrow> world" where
  "second_answer_world tables generated fixed fixed_again content db =
     (sample_world tables generated fixed content db)
       \<lparr> tool_completion := (\<lambda>h m kind.
            if kind = GenerateSQL
            then Inr [\<lparr> fn_name = ''generate_sql_query'', fn_arguments = Inr generated \<rparr>]
            else Inr [\<lparr> fn_name = ''fix_sql_query'',
                       fn_arguments = Inr (if filter (is_repair AfterExecution) h = []
                                           then fixed else fixed_again) \<rparr>]) \<rparr>"



section \<open>Theorems\<close>

subsection \<open>Helper lemmas on envelopes\<close>

lemma mock_ok: "envelope_ok (get_mock_response t m)"
  by (simp add: envelope_ok_def get_mock_response_def Let_def)

lemma empty_ok: "envelope_ok (get_empty_results_response (Some q))"
  by (simp add: envelope_ok_def get_empty_results_response_def)

lemma success_ok: "envelope_ok (success_response q rows s)"
  by (simp add: envelope_ok_def success_response_def)

lemma debugged_ok: "envelope_ok (debugged_response q q0 rows s)"
  by (simp add: envelope_ok_def debugged_response_def)

lemma execute_and_summarize_ok: "envelope_ok (fst (execute_and_summarize W h q))"
  by (simp add: execute_and_summarize_def Let_def mock_ok empty_ok success_ok debugged_ok
      split: sum.split prod.split)

lemma service_ok: "envelope_ok (fst (service_process_query W))"
  by (simp add: service_process_query_def mock_ok split: prod.split)
     (metis execute_and_summarize_ok fst_conv)

lemmas char_classes = code_def is_space_def is_digit_def is_ascii_upper_def
  is_ascii_lower_def is_bare_def is_word_def lower_ch_def ci_eq_def upper_ascii_def
  word_opt_def boundary_def char_before_def char_of_def bit_Suc_0_iff

lemmas fixer_defs = lookahead_hit_def group_len_def table_match_at_def str_replace_def
  detect_and_fix_common_issues_def Let_def

lemmas validator_defs = validate_query_def strip_def not_select_def re_search_keyword_def
  keyword_match_at_def BLOCKED_SQL_KEYWORDS_def sample_parse_def statement_type_def

lemmas pipeline_defs = service_process_query_def generate_sql_query_def
  create_with_fallback_def generation_response_def generation_outcome_def
  agent_process_query_def debug_query_def debug_response_def debug_outcome_def
  execute_and_summarize_def summarize_query_results_def truthy_def text_of_def
  sample_world_def users_db_def

subsection \<open>Helper lemmas on traces\<close>

lemma completion_facts:
  "is_completion_of k x \<Longrightarrow> (k \<noteq> Summarize \<longrightarrow> is_internal x) \<and> \<not> is_failed_validate x
     \<and> \<not> is_debug x \<and> \<not> is_execute x \<and> \<not> is_failed_execute x \<and> \<not> is_repair st x
     \<and> (is_summarize_call x = (k = Summarize))"
  by (cases x) auto

lemma internal_facts:
  "is_internal x \<Longrightarrow> \<not> is_debug x \<and> \<not> is_execute x \<and> \<not> is_failed_execute x
     \<and> \<not> is_repair st x \<and> \<not> is_summarize_call x"
  by (cases x) auto

lemma last_execute_append:
  "last_execute (a @ b) = (case last_execute b of None \<Rightarrow> last_execute a | Some x \<Rightarrow> Some x)"
  by (induction a rule: last_execute.induct) (auto split: option.splits)

lemma last_execute_none: "\<forall>x\<in>set xs. \<not> is_execute x \<Longrightarrow> last_execute xs = None"
  by (induction xs rule: last_execute.induct) auto

lemma last_execute_internal: "\<forall>x\<in>set xs. is_internal x \<Longrightarrow> last_execute xs = None"
  by (rule last_execute_none) (use internal_facts in blast)

lemma create_with_fallback_events:
  "create_with_fallback W h k fb = (r, evs) \<Longrightarrow> \<forall>x\<in>set evs. is_completion_of k x"
  by (auto simp: create_with_fallback_def split: sum.splits if_splits)

lemma clean_Nil [simp]: "clean []"
  by (simp add: clean_def)

lemma clean_append [simp]: "clean (a @ b) = (clean a \<and> clean b)"
  by (auto simp: clean_def)

lemma clean_completions:
  "\<forall>x\<in>set vs. is_completion_of k x \<Longrightarrow> k \<noteq> Summarize \<Longrightarrow> clean vs"
  using completion_facts by (auto simp: clean_def)

lemma ends_failed_prepend: "clean a \<Longrightarrow> ends_failed b \<Longrightarrow> ends_failed (a @ b)"
  unfolding ends_failed_def by (metis append.assoc clean_append)

lemma repaired_prepend: "clean a \<Longrightarrow> repaired prs res b \<Longrightarrow> repaired prs res (a @ b)"
  by (auto simp: repaired_def ends_failed_prepend split: if_splits)

lemma debug_outcome_events:
  assumes "debug_outcome prs a = (res, vs)"
  shows "repaired prs res vs"
proof (cases "validate_query prs (text_of (a ''fixed_query''))")
  case (Pair ok msg)
  from assms show ?thesis
    unfolding debug_outcome_def Let_def Pair
    by (auto simp: Pair repaired_def clean_def ends_failed_def split: if_splits)
qed

lemma debug_response_events:
  "debug_response prs tcs = (res, vs) \<Longrightarrow> repaired prs res vs"
  by (auto simp: debug_response_def repaired_def split: list.splits if_splits sum.splits
      dest: debug_outcome_events)

lemma debug_query_events:
  assumes "debug_query W h st q e = (res, evs)"
  shows "\<exists>rest. evs = EvDebug st q e # rest \<and> repaired (parse W) res rest"
proof (cases "agent_client W (h @ [EvDebug st q e])")
  case (Some a)
  with assms show ?thesis by (auto simp: debug_query_def Let_def repaired_def)
next
  case None
  note ac = this
  show ?thesis
  proof (cases "build_prompt W (h @ [EvDebug st q e]) FixSQL")
    case (Some a)
    with assms ac show ?thesis by (auto simp: debug_query_def Let_def repaired_def)
  next
    case None
    note bp = this
    obtain r cvs where c: "create_with_fallback W (h @ [EvDebug st q e]) FixSQL ''gpt-3.5-turbo'' = (r, cvs)"
      by (cases "create_with_fallback W (h @ [EvDebug st q e]) FixSQL ''gpt-3.5-turbo''") auto
    have cv: "clean cvs"
      using create_with_fallback_events [OF c] by (rule clean_completions) simp
    show ?thesis
    proof (cases r)
      case (Inl e)
      with assms ac bp c cv show ?thesis by (auto simp: debug_query_def Let_def repaired_def)
    next
      case (Inr tcs)
      obtain res' vs where d: "debug_response (parse W) tcs = (res', vs)"
        by (cases "debug_response (parse W) tcs") auto
      from repaired_prepend [OF cv debug_response_events [OF d]] assms ac bp c Inr d
      show ?thesis
        by (auto simp: debug_query_def Let_def)
    qed
  qed
qed

lemma generate_events:
  "generate_sql_query W h = (res, evs) \<Longrightarrow> \<forall>x\<in>set evs. is_completion_of GenerateSQL x"
  by (auto simp: generate_sql_query_def split: option.splits sum.splits prod.splits
      dest!: create_with_fallback_events)

lemma summarize_events:
  "summarize_query_results W h rows n = (s, evs) \<Longrightarrow> \<forall>x\<in>set evs. is_completion_of Summarize x"
  by (auto simp: summarize_query_results_def split: option.splits sum.splits if_splits)


lemma agent_events:
  assumes "agent_process_query W h q0 = ((ok, pq), avs)"
  shows "\<exists>q. (avs = [EvValidate q True] \<and> ok \<and> pq = q)
     \<or> (\<exists>rows. avs = [EvValidate q False, EvExecute q (Inr rows)] \<and> ok \<and> pq = q)
     \<or> (\<exists>e rest. avs = [EvValidate q False, EvExecute q (Inl e), EvDebug AfterValidation q e] @ rest
           \<and> repaired (parse W) (ok, pq) rest)"
proof -
  obtain fq wm where f: "detect_and_fix_common_issues q0 (schema_keys W) = (fq, wm)"
    by (cases "detect_and_fix_common_issues q0 (schema_keys W)") auto
  define q where "q = (if wm then fq else q0)"
  obtain v msg where v: "validate_query (parse W) q = (v, msg)"
    by (cases "validate_query (parse W) q") auto
  show ?thesis
  proof (cases v)
    case True
    with assms f v show ?thesis
      by (auto simp: agent_process_query_def Let_def q_def split: if_splits)
  next
    case False
    note nv = this
    show ?thesis
    proof (cases "execute W (h @ [EvValidate q False]) q")
      case (Inr rows)
      with assms f v nv show ?thesis
        by (auto simp: agent_process_query_def Let_def q_def split: if_splits)
    next
      case (Inl e)
      obtain ds dr dvs where d: "debug_query W (h @ [EvValidate q False, EvExecute q (Inl e)])
          AfterValidation q e = ((ds, dr), dvs)"
        by (cases "debug_query W (h @ [EvValidate q False, EvExecute q (Inl e)]) AfterValidation q e") auto
      from debug_query_events [OF d] obtain rest where
        r: "dvs = EvDebug AfterValidation q e # rest" "repaired (parse W) (ds, dr) rest"
        by auto
      obtain v2 msg2 where v2: "validate_query (parse W) dr = (v2, msg2)"
        by (cases "validate_query (parse W) dr") auto
      have res: "(ok, pq) = (if ds then (if v2 then (True, dr) else (False, dr)) else (False, msg))"
        and tr: "avs = [EvValidate q False, EvExecute q (Inl e)] @ dvs
            @ (if ds then [EvValidate dr v2] else [])"
        using assms f v nv Inl d v2
        by (auto simp: agent_process_query_def Let_def q_def split: if_splits)
      show ?thesis
      proof (cases ds)
        case False
        with res tr r show ?thesis by (auto simp: repaired_def)
      next
        case True
        with r v2 have "v2" "clean rest" by (auto simp: repaired_def)
        with res tr r True v2 show ?thesis
          by (auto simp: repaired_def clean_def)
      qed
    qed
  qed
qed

lemma clean_facts:
  "clean vs \<Longrightarrow> x \<in> set vs \<Longrightarrow> is_internal x \<and> \<not> is_failed_validate x \<and> \<not> is_debug x
     \<and> \<not> is_execute x \<and> \<not> is_failed_execute x \<and> \<not> is_repair st x"
  using internal_facts by (auto simp: clean_def)

lemma repaired_internal: "repaired prs res vs \<Longrightarrow> \<forall>x\<in>set vs. is_internal x"
  by (auto simp: repaired_def clean_def ends_failed_def split: if_splits)

lemma completion_not_summarize:
  "is_completion_of k x \<Longrightarrow> k \<noteq> Summarize \<Longrightarrow> \<not> is_summarize_call x"
  by (cases x) auto

lemma execute_and_summarize_events:
  assumes "execute_and_summarize W h p = (response, xvs)"
  shows "exec_shape W p response xvs"
proof (cases "execute W h p")
  case (Inr rows)
  show ?thesis
  proof (cases "rows = []")
    case True
    with assms Inr have "response = get_empty_results_response (Some p)"
      "xvs = [EvExecute p (Inr [])]"
      by (simp_all add: execute_and_summarize_def)
    then show ?thesis by (simp add: first_empty)
  next
    case False
    obtain summary svs where s:
      "summarize_query_results W (h @ [EvExecute p (Inr rows)]) rows 10 = (summary, svs)"
      by (cases "summarize_query_results W (h @ [EvExecute p (Inr rows)]) rows 10") auto
    from assms Inr False s have "response = success_response p rows summary"
      "xvs = EvExecute p (Inr rows) # svs"
      by (simp_all add: execute_and_summarize_def)
    then show ?thesis using first_rows [OF False summarize_events [OF s]] by simp
  qed
next
  case (Inl e)
  obtain ds dr dvs where d:
    "debug_query W (h @ [EvExecute p (Inl e)]) AfterExecution p e = ((ds, dr), dvs)"
    by (cases "debug_query W (h @ [EvExecute p (Inl e)]) AfterExecution p e") auto
  from debug_query_events [OF d] obtain rest where
    r: "dvs = EvDebug AfterExecution p e # rest" "repaired (parse W) (ds, dr) rest"
    by auto
  show ?thesis
  proof (cases ds)
    case False
    with assms Inl d have "response = get_mock_response ''execution_error'' (Some e)"
      "xvs = [EvExecute p (Inl e)] @ dvs"
      by (simp_all add: execute_and_summarize_def)
    then show ?thesis using no_repair [of W dr rest p e] r False by simp
  next
    case True
    with r have cl: "clean rest" "fst (validate_query (parse W) dr)"
      by (auto simp: repaired_def)
    show ?thesis
    proof (cases "execute W (h @ [EvExecute p (Inl e)] @ dvs) dr")
      case (Inl e')
      with assms \<open>execute W h p = Inl e\<close> d True
      have "response = get_mock_response ''execution_error'' (Some e)"
        "xvs = [EvExecute p (Inl e)] @ dvs @ [EvExecute dr (Inl e')]"
        by (simp_all add: execute_and_summarize_def)
      then show ?thesis using repair_failed [OF cl, of p e e'] r by simp
    next
      case (Inr rows)
      show ?thesis
      proof (cases "rows = []")
        case True
        with assms \<open>execute W h p = Inl e\<close> d \<open>ds\<close> Inr
        have "response = get_empty_results_response (Some dr)"
          "xvs = [EvExecute p (Inl e)] @ dvs @ [EvExecute dr (Inr [])]"
          by (simp_all add: execute_and_summarize_def)
        then show ?thesis using repair_empty [OF cl, of p e] r by simp
      next
        case False
        obtain summary svs where s:
          "summarize_query_results W
             (h @ [EvExecute p (Inl e)] @ dvs @ [EvExecute dr (Inr rows)]) rows 10
           = (summary, svs)"
          by (cases "summarize_query_results W
             (h @ [EvExecute p (Inl e)] @ dvs @ [EvExecute dr (Inr rows)]) rows 10") auto
        from assms \<open>execute W h p = Inl e\<close> d \<open>ds\<close> Inr False s
        have "response = debugged_response dr p rows summary"
          "xvs = [EvExecute p (Inl e)] @ dvs @ EvExecute dr (Inr rows) # svs"
          by (simp_all add: execute_and_summarize_def)
        then show ?thesis
          using repair_rows [OF cl False summarize_events [OF s], of p summary e] r by simp
      qed
    qed
  qed
qed

lemma last_execute_clean: "clean vs \<Longrightarrow> last_execute vs = None"
  by (rule last_execute_internal) (simp add: clean_def)

lemma last_execute_completions:
  "\<forall>x\<in>set vs. is_completion_of k x \<Longrightarrow> last_execute vs = None"
  by (rule last_execute_none) (use completion_facts in blast)

lemma execute_stage_last:
  assumes "execute_and_summarize W h p = (response, xvs)"
  shows "\<exists>q r. last_execute xvs = Some (q, r)
     \<and> (r = Inr [] \<longrightarrow> response = get_empty_results_response (Some q)
          \<and> (\<forall>ev\<in>set xvs. \<not> is_summarize_call ev))"
  using execute_and_summarize_events [OF assms]
proof cases
  case first_empty
  then show ?thesis by simp
next
  case (first_rows rows svs summary)
  then show ?thesis by (simp add: last_execute_completions)
next
  case (no_repair dres rest e)
  then show ?thesis
    using repaired_internal [of "parse W" "(False, dres)" rest]
    by (simp add: last_execute_internal)
next
  case (repair_empty rest dq e)
  have "\<forall>ev\<in>set rest. \<not> is_summarize_call ev"
    using clean_facts [OF repair_empty(3)] internal_facts by blast
  with repair_empty show ?thesis
    by (simp add: last_execute_append last_execute_clean)
next
  case (repair_rows rest dq rows svs summary e)
  then show ?thesis
    by (simp add: last_execute_append last_execute_completions last_execute_clean)
next
  case (repair_failed rest dq e e')
  then show ?thesis
    by (simp add: last_execute_append last_execute_clean)
qed

lemma agent_facts:
  assumes "agent_process_query W h q0 = ((ok, pq), avs)"
  shows "(\<forall>ev\<in>set avs. \<not> is_summarize_call ev)
     \<and> (\<not> ok \<longrightarrow> (\<exists>q e. last_execute avs = Some (q, Inl e)))"
proof -
  from agent_events [OF assms] obtain q where
    "(avs = [EvValidate q True] \<and> ok \<and> pq = q)
     \<or> (\<exists>rows. avs = [EvValidate q False, EvExecute q (Inr rows)] \<and> ok \<and> pq = q)
     \<or> (\<exists>e rest. avs = [EvValidate q False, EvExecute q (Inl e), EvDebug AfterValidation q e] @ rest
           \<and> repaired (parse W) (ok, pq) rest)"
    by blast
  then consider (valid) "avs = [EvValidate q True]" "ok"
    | (ran) rows where "avs = [EvValidate q False, EvExecute q (Inr rows)]" "ok"
    | (debugged) e rest where
        "avs = [EvValidate q False, EvExecute q (Inl e), EvDebug AfterValidation q e] @ rest"
        "repaired (parse W) (ok, pq) rest"
    by blast
  then show ?thesis
  proof cases
    case valid
    then show ?thesis by simp
  next
    case ran
    then show ?thesis by simp
  next
    case debugged
    from repaired_internal [OF debugged(2)] have i: "\<forall>x\<in>set rest. is_internal x" .
    then have "\<forall>x\<in>set rest. \<not> is_summarize_call x" using internal_facts by blast
    moreover have "last_execute rest = None" using i by (rule last_execute_internal)
    ultimately show ?thesis using debugged(1) by (simp add: last_execute_append)
  qed
qed


lemma repairs_append: "repairs st (a @ b) = repairs st a + repairs st b"
  by (simp add: repairs_def)

lemma repairs_none: "\<forall>x\<in>set a. \<not> is_repair st x \<Longrightarrow> repairs st a = 0"
  by (induction a) (auto simp: repairs_def)

lemma dropWhile_all: "\<forall>x\<in>set a. P x \<Longrightarrow> dropWhile P a = []"
  by (induction a) auto

lemma after_repair_none: "\<forall>x\<in>set a. \<not> is_repair st x \<Longrightarrow> after_repair st a = []"
  by (simp add: after_repair_def dropWhile_all)

lemma after_repair_append:
  "after_repair st (a @ b) =
     (if (\<forall>x\<in>set a. \<not> is_repair st x) then after_repair st b else after_repair st a @ b)"
  by (induction a) (auto simp: after_repair_def)

lemma after_repair_hit: "is_repair st x \<Longrightarrow> after_repair st (x # b) = b"
  by (simp add: after_repair_def)

lemma after_repair_miss: "\<not> is_repair st x \<Longrightarrow> after_repair st (x # b) = after_repair st b"
  by (simp add: after_repair_def)

lemma internal_no_repair: "\<forall>x\<in>set a. is_internal x \<Longrightarrow> \<forall>x\<in>set a. \<not> is_repair st x"
  using internal_facts by blast

lemma completions_no_repair:
  "\<forall>x\<in>set a. is_completion_of k x \<Longrightarrow> \<forall>x\<in>set a. \<not> is_repair st x \<and> \<not> is_debug x
     \<and> \<not> is_failed_validate x \<and> \<not> is_failed_execute x"
  using completion_facts by blast

lemma ends_failed_last: "ends_failed vs \<Longrightarrow> vs \<noteq> [] \<and> is_failed_validate (last vs)"
  by (auto simp: ends_failed_def)

lemma clean_no_failure:
  "clean vs \<Longrightarrow> \<forall>x\<in>set vs. \<not> is_failed_validate x \<and> \<not> is_failed_execute x \<and> \<not> is_debug x"
  using clean_facts by blast

text \<open>What the validation stage leaves in the trace.\<close>

lemma agent_repairs:
  assumes "agent_process_query W h q0 = ((ok, pq), avs)"
  shows "avs \<noteq> [] \<and> repairs AfterValidation avs \<le> 1 \<and> (\<forall>x\<in>set avs. \<not> is_repair AfterExecution x)
     \<and> (\<forall>x\<in>set (after_repair AfterValidation avs). is_internal x)
     \<and> (ok \<longrightarrow> (\<forall>x\<in>set (after_repair AfterValidation avs). \<not> is_failed_validate x))
     \<and> ((\<exists>x\<in>set (after_repair AfterValidation avs). is_failed_validate x)
          \<longrightarrow> is_failed_validate (last avs))"
proof -
  from agent_events [OF assms] obtain q where
    "(avs = [EvValidate q True] \<and> ok \<and> pq = q)
     \<or> (\<exists>rows. avs = [EvValidate q False, EvExecute q (Inr rows)] \<and> ok \<and> pq = q)
     \<or> (\<exists>e rest. avs = [EvValidate q False, EvExecute q (Inl e), EvDebug AfterValidation q e] @ rest
           \<and> repaired (parse W) (ok, pq) rest)"
    by blast
  then consider (valid) "avs = [EvValidate q True]" "ok"
    | (ran) rows where "avs = [EvValidate q False, EvExecute q (Inr rows)]" "ok"
    | (debugged) e rest where
        "avs = [EvValidate q False, EvExecute q (Inl e), EvDebug AfterValidation q e] @ rest"
        "repaired (parse W) (ok, pq) rest"
    by blast
  then show ?thesis
  proof cases
    case valid
    then show ?thesis by (simp add: repairs_def after_repair_def)
  next
    case ran
    then show ?thesis by (simp add: repairs_def after_repair_def)
  next
    case debugged
    from repaired_internal [OF debugged(2)] have i: "\<forall>x\<in>set rest. is_internal x" .
    then have nr: "\<forall>x\<in>set rest. \<not> is_repair AfterValidation x"
      "\<forall>x\<in>set rest. \<not> is_repair AfterExecution x"
      using internal_facts by blast+
    have ar: "after_repair AfterValidation avs = rest"
      using debugged(1) by (simp add: after_repair_def)
    have rp: "repairs AfterValidation avs \<le> 1"
      using debugged(1) repairs_none [OF nr(1)] by (simp add: repairs_def)
    have okc: "ok \<longrightarrow> (\<forall>x\<in>set rest. \<not> is_failed_validate x)"
      using debugged(2) by (auto simp: repaired_def clean_def)
    have lf: "(\<exists>x\<in>set rest. is_failed_validate x) \<longrightarrow> is_failed_validate (last avs)"
    proof
      assume f: "\<exists>x\<in>set rest. is_failed_validate x"
      then have "\<not> clean rest" by (auto simp: clean_def)
      with debugged(2) have "ends_failed rest" by (auto simp: repaired_def split: if_splits)
      from ends_failed_last [OF this] debugged(1) show "is_failed_validate (last avs)" by simp
    qed
    from debugged(1) ar rp okc lf i nr show ?thesis by simp
  qed
qed

lemma mock_failed_with: "failed_with t (get_mock_response t m)"
  by (simp add: failed_with_def get_mock_response_def Let_def)

lemma exec_repairs:
  assumes "execute_and_summarize W h p = (response, xvs)"
  shows "xvs \<noteq> [] \<and> repairs AfterExecution xvs \<le> 1
    \<and> (\<forall>x\<in>set xvs. \<not> is_repair AfterValidation x)
    \<and> (\<forall>x\<in>set (after_repair AfterExecution xvs). \<not> is_debug x)
    \<and> ((\<exists>x\<in>set xvs. is_failed_validate x)
         \<longrightarrow> failed_with ''execution_error'' response \<and> is_failed_validate (last xvs))
    \<and> ((\<exists>x\<in>set (after_repair AfterExecution xvs). is_failed_execute x)
         \<longrightarrow> failed_with ''execution_error'' response \<and> is_failed_execute (last xvs))"
  using execute_and_summarize_events [OF assms]
proof cases
  case first_empty
  then show ?thesis by (simp add: repairs_def after_repair_def)
next
  case (first_rows rows svs summary)
  note c = completions_no_repair [OF first_rows(4)]
  have "repairs AfterExecution svs = 0" "after_repair AfterExecution svs = []"
    using c by (simp_all add: repairs_none after_repair_none)
  with first_rows c show ?thesis
    by (simp add: repairs_def after_repair_def)
next
  case (no_repair dres rest e)
  from repaired_internal [OF no_repair(3)] have i: "\<forall>x\<in>set rest. is_internal x" .
  have nr: "\<forall>x\<in>set rest. \<not> is_repair AfterValidation x \<and> \<not> is_repair AfterExecution x
      \<and> \<not> is_debug x \<and> \<not> is_failed_execute x"
    using i internal_facts by blast
  have ar: "after_repair AfterExecution xvs = rest"
    using no_repair(2) by (simp add: after_repair_def)
  have rp: "repairs AfterExecution xvs \<le> 1"
    using no_repair(2) repairs_none [of rest AfterExecution] nr by (simp add: repairs_def)
  have lf: "(\<exists>x\<in>set rest. is_failed_validate x) \<longrightarrow> is_failed_validate (last xvs)"
  proof
    assume "\<exists>x\<in>set rest. is_failed_validate x"
    then have "\<not> clean rest" by (auto simp: clean_def)
    with no_repair(3) have "ends_failed rest" by (auto simp: repaired_def)
    from ends_failed_last [OF this] no_repair(2) show "is_failed_validate (last xvs)" by simp
  qed
  from no_repair(1,2) ar rp lf nr mock_failed_with show ?thesis by simp
next
  case (repair_empty rest dq e)
  note c = clean_facts [OF repair_empty(3)]
  have nr: "\<forall>x\<in>set rest. \<not> is_repair AfterValidation x \<and> \<not> is_repair AfterExecution x
      \<and> \<not> is_debug x \<and> \<not> is_failed_execute x \<and> \<not> is_failed_validate x"
    using c by blast
  have rp: "repairs AfterExecution xvs \<le> 1"
    using repair_empty(2) repairs_none [of rest AfterExecution] nr
    by (simp add: repairs_def)
  from repair_empty(1,2) rp nr show ?thesis by (simp add: after_repair_def)
next
  case (repair_rows rest dq rows svs summary e)
  note c = clean_facts [OF repair_rows(3)]
  note d = completions_no_repair [OF repair_rows(6)]
  have nr: "\<forall>x\<in>set rest. \<not> is_repair AfterValidation x \<and> \<not> is_repair AfterExecution x
      \<and> \<not> is_debug x \<and> \<not> is_failed_execute x \<and> \<not> is_failed_validate x"
    using c by blast
  have rp: "repairs AfterExecution xvs \<le> 1"
    using repair_rows(2) repairs_none [of rest AfterExecution] repairs_none [of svs AfterExecution]
      nr d by (simp add: repairs_def)
  have ds: "\<forall>x\<in>set svs. \<not> is_repair AfterValidation x \<and> \<not> is_debug x
      \<and> \<not> is_failed_validate x \<and> \<not> is_failed_execute x"
    using d by blast
  from repair_rows(1,2) rp nr ds show ?thesis by (auto simp: after_repair_def)
next
  case (repair_failed rest dq e e')
  note c = clean_facts [OF repair_failed(3)]
  have nr: "\<forall>x\<in>set rest. \<not> is_repair AfterValidation x \<and> \<not> is_repair AfterExecution x
      \<and> \<not> is_debug x \<and> \<not> is_failed_execute x \<and> \<not> is_failed_validate x"
    using c by blast
  have rp: "repairs AfterExecution xvs \<le> 1"
    using repair_failed(2) repairs_none [of rest AfterExecution] nr
    by (simp add: repairs_def)
  from repair_failed(1,2) rp nr mock_failed_with show ?thesis by (simp add: after_repair_def)
qed

text \<open>Counting the repairs of a trace, and the repair that follows a failed execution.\<close>

lemma debug_count:
  "length (filter is_debug tr) = repairs AfterValidation tr + repairs AfterExecution tr"
proof (induction tr)
  case Nil
  then show ?case by (simp add: repairs_def)
next
  case (Cons ev tr)
  then show ?case
  proof (cases ev)
    case (EvDebug st q e)
    with Cons show ?thesis by (cases st) (simp_all add: repairs_def)
  qed (simp_all add: repairs_def)
qed

lemma exec_failure_repaired:
  assumes "execute_and_summarize W h p = (response, xvs)"
    and "\<exists>x\<in>set xvs. is_failed_execute x"
  shows "repairs AfterExecution xvs = 1"
  using execute_and_summarize_events [OF assms(1)]
proof cases
  case first_empty
  with assms(2) show ?thesis by simp
next
  case (first_rows rows svs summary)
  note c = completions_no_repair [OF first_rows(4)]
  with first_rows assms(2) show ?thesis by auto
next
  case (no_repair dres rest e)
  from repaired_internal [OF no_repair(3)] have "\<forall>x\<in>set rest. is_internal x" .
  then have "\<forall>x\<in>set rest. \<not> is_repair AfterExecution x" by (rule internal_no_repair)
  then show ?thesis
    using no_repair(2) repairs_none [of rest AfterExecution] by (simp add: repairs_def)
next
  case (repair_empty rest dq e)
  note c = clean_facts [OF repair_empty(3)]
  then have "\<forall>x\<in>set rest. \<not> is_repair AfterExecution x" by blast
  then show ?thesis
    using repair_empty(2) repairs_none [of rest AfterExecution] by (simp add: repairs_def)
next
  case (repair_rows rest dq rows svs summary e)
  note c = clean_facts [OF repair_rows(3)]
  note d = completions_no_repair [OF repair_rows(6)]
  have "\<forall>x\<in>set rest. \<not> is_repair AfterExecution x" using c by blast
  moreover have "\<forall>x\<in>set svs. \<not> is_repair AfterExecution x" using d by blast
  ultimately show ?thesis
    using repair_rows(2) repairs_none [of rest AfterExecution] repairs_none [of svs AfterExecution]
    by (simp add: repairs_def)
next
  case (repair_failed rest dq e e')
  note c = clean_facts [OF repair_failed(3)]
  then have "\<forall>x\<in>set rest. \<not> is_repair AfterExecution x" by blast
  then show ?thesis
    using repair_failed(2) repairs_none [of rest AfterExecution] by (simp add: repairs_def)
qed

subsection \<open>Helper lemmas on the keyword search\<close>

lemma code_char_of: "n < 256 \<Longrightarrow> code (char_of n) = n"
  by (simp add: code_def)

lemma ci_eq_upper: "ci_eq (upper_ascii a) a"
proof (cases "is_ascii_lower a")
  case True
  define n where "n = code a"
  from True have r: "97 \<le> n" "n \<le> 122" by (simp_all add: is_ascii_lower_def n_def)
  define u where "u = char_of (n - 32)"
  have cu: "code u = n - 32" using r by (simp add: u_def code_char_of)
  have "is_ascii_upper u" unfolding is_ascii_upper_def cu using r by arith
  then have "lower_ch u = char_of (code u + 32)" by (simp add: lower_ch_def)
  also have "code u + 32 = n" using cu r by simp
  also have "char_of n = a" by (simp add: n_def code_def)
  finally have 1: "lower_ch u = a" .
  have 2: "lower_ch a = a" using r by (simp add: lower_ch_def is_ascii_upper_def n_def)
  have "upper_ascii a = u" using True by (simp add: upper_ascii_def u_def n_def)
  with 1 2 show ?thesis by (simp add: ci_eq_def)
next
  case False
  then show ?thesis by (simp add: ci_eq_def upper_ascii_def)
qed

lemma ci_prefix_upper: "ci_prefix (map upper_ascii mid) (mid @ post)"
  by (induction mid) (simp_all add: ci_eq_upper)

lemma upper_is_word: "is_ascii_upper (upper_ascii a) \<Longrightarrow> is_word a"
  by (cases "is_ascii_lower a") (auto simp: upper_ascii_def is_word_def is_bare_def)

lemma blocked_shape:
  "keyword \<in> set BLOCKED_SQL_KEYWORDS \<Longrightarrow>
     keyword \<noteq> [] \<and> is_ascii_upper (hd keyword) \<and> is_ascii_upper (last keyword)"
  by (auto simp: BLOCKED_SQL_KEYWORDS_def is_ascii_upper_def code_def)

lemma hd_opt_append: "a \<noteq> [] \<Longrightarrow> hd_opt (a @ b) = Some (hd a)"
  by (cases a) auto

lemma hd_opt_last: "a \<noteq> [] \<Longrightarrow> hd_opt (drop (length a - 1) (a @ b)) = Some (last a)"
  by (cases a rule: rev_cases) auto

lemma keyword_match_here:
  assumes "map upper_ascii mid = keyword" "keyword \<noteq> []"
    "is_ascii_upper (hd keyword)" "is_ascii_upper (last keyword)"
    "\<not> word_opt prev" "post = [] \<or> \<not> is_word (hd post)"
  shows "keyword_match_at keyword prev (mid @ post)"
proof -
  from assms(1,2) have ne: "mid \<noteq> []" by auto
  have h: "is_word (hd mid)"
    using assms(1,3) ne upper_is_word [of "hd mid"] by (auto simp: hd_map)
  have l: "is_word (last mid)"
    using assms(1,4) ne upper_is_word [of "last mid"] by (auto simp: last_map)
  have len: "length keyword = length mid" using assms(1) by auto
  have p: "\<not> word_opt (hd_opt post)"
    using assms(6) by (cases post) (auto simp: word_opt_def)
  have "boundary prev (hd_opt (mid @ post))"
    using ne h assms(5) by (simp add: hd_opt_append boundary_def word_opt_def)
  moreover have "ci_prefix keyword (mid @ post)"
    using ci_prefix_upper [of mid post] assms(1) by simp
  moreover have "boundary (char_before prev (mid @ post) (length keyword))
      (hd_opt (drop (length keyword) (mid @ post)))"
  proof -
    have "drop (length mid) (mid @ post) = post" by simp
    with ne l p len hd_opt_last [OF ne, of post] show ?thesis
      by (simp add: char_before_def boundary_def word_opt_def del: drop_append)
  qed
  ultimately show ?thesis by (simp add: keyword_match_at_def)
qed

lemma search_from_here: "keyword_match_at keyword prev s \<Longrightarrow> search_from keyword prev s"
  by (cases s) auto

lemma search_from_skip:
  "keyword_match_at keyword (if pre = [] then prev else Some (last pre)) s
     \<Longrightarrow> search_from keyword prev (pre @ s)"
proof (induction pre arbitrary: prev)
  case Nil
  then show ?case by (simp add: search_from_here)
next
  case (Cons c pre)
  from Cons.prems have "keyword_match_at keyword (if pre = [] then Some c else Some (last pre)) s"
    by (simp split: if_splits)
  from Cons.IH [OF this] show ?case by simp
qed

lemma blocked_keyword_found:
  assumes "keyword \<in> set BLOCKED_SQL_KEYWORDS" "map upper_ascii mid = keyword"
    "pre = [] \<or> \<not> is_word (last pre)" "post = [] \<or> \<not> is_word (hd post)"
  shows "re_search_keyword keyword (pre @ mid @ post)"
proof -
  have "\<not> word_opt (if pre = [] then None else Some (last pre))"
    using assms(3) by (auto simp: word_opt_def)
  with keyword_match_here [OF assms(2) _ _ _ _ assms(4)] blocked_shape [OF assms(1)]
  have "keyword_match_at keyword (if pre = [] then None else Some (last pre)) (mid @ post)"
    by blast
  from search_from_skip [OF this] show ?thesis by (simp add: re_search_keyword_def)
qed


subsection \<open>Helper lemmas on the heuristic fixer\<close>

lemma bare_facts:
  "is_bare c \<Longrightarrow> c \<noteq> CHR ''='' \<and> \<not> is_space c \<and> c \<noteq> CHR ''('' \<and> c \<noteq> CHR 0x27 \<and> c \<noteq> CHR '':''"
  by (auto simp: char_classes)

lemma space_facts: "is_space c \<Longrightarrow> c \<noteq> CHR ''=''"
  by (auto simp: char_classes)

lemma spm_head: "c \<noteq> CHR ''='' \<Longrightarrow> string_pattern_match (c # s) = None"
  by (cases s) auto

lemma spm_Some:
  "string_pattern_match s = Some (g, rest) \<Longrightarrow>
     \<exists>r k. s = CHR ''='' # CHR '' '' # r
       \<and> group_len (takeWhile is_bare r) (dropWhile is_bare r) = Some k
       \<and> g = take k r \<and> rest = drop k r"
  by (cases s rule: string_pattern_match.cases) (auto split: if_splits option.splits)

lemma aq_nomatch:
  "string_pattern_match (c # s) = None \<Longrightarrow>
     add_quotes_to_strings (c # s) = (c # quote_pass s, snd (add_quotes_to_strings s))"
  by (simp split: prod.splits)

lemma aq_copy:
  "\<forall>x\<in>set p. x \<noteq> CHR ''='' \<Longrightarrow>
     add_quotes_to_strings (p @ t) = (p @ quote_pass t, snd (add_quotes_to_strings t))"
  by (induction p) (simp_all add: aq_nomatch spm_head)

lemma hd_sub: "hd_opt (quote_pass s) = hd_opt s"
proof (cases s)
  case Nil
  then show ?thesis by simp
next
  case (Cons c r)
  show ?thesis
  proof (cases "string_pattern_match (c # r)")
    case None
    from aq_nomatch [OF None] show ?thesis unfolding Cons by simp
  next
    case (Some a)
    obtain g rest where a: "a = (g, rest)" by (cases a)
    from spm_Some [OF Some [unfolded a]] have "c = CHR ''=''" by auto
    with Cons Some a show ?thesis by simp
  qed
qed

lemma lookahead_sub: "lookahead_hit (quote_pass t) = lookahead_hit t"
proof -
  define p where "p = takeWhile is_space t"
  define u where "u = dropWhile is_space t"
  have t: "t = p @ u" by (simp add: p_def u_def)
  have ps: "\<forall>x\<in>set p. is_space x" unfolding p_def by (auto dest: set_takeWhileD)
  then have pe: "\<forall>x\<in>set p. x \<noteq> CHR ''=''" using space_facts by blast
  have st: "quote_pass t = p @ quote_pass u" unfolding t using aq_copy [OF pe] by simp
  have d1: "dropWhile is_space (quote_pass t) = dropWhile is_space (quote_pass u)"
    unfolding st using ps by (simp add: dropWhile_append2)
  have d2: "dropWhile is_space t = u" by (simp add: u_def)
  show ?thesis
  proof (cases u)
    case Nil
    show ?thesis unfolding lookahead_hit_def d1 d2 Nil by simp
  next
    case (Cons c r)
    have nc: "\<not> is_space c"
      using Cons u_def by (metis hd_dropWhile list.sel(1) list.simps(3))
    show ?thesis
    proof (cases "string_pattern_match (c # r)")
      case None
      from aq_nomatch [OF None] have su: "quote_pass u = c # quote_pass r" unfolding Cons by simp
      show ?thesis unfolding lookahead_hit_def d1 d2 su unfolding Cons
        using nc hd_sub [of r] by simp
    next
      case (Some a)
      obtain g rest where a: "a = (g, rest)" by (cases a)
      from spm_Some [OF Some [unfolded a]] have c: "c = CHR ''=''" by auto
      from Some a Cons have su: "quote_pass u = CHR ''='' # '' '' @ [CHR 0x27] @ g @ [CHR 0x27] @ quote_pass rest"
        by simp
      show ?thesis unfolding lookahead_hit_def d1 d2 su unfolding Cons c
        by (simp add: char_classes)
    qed
  qed
qed

lemma lookahead_bare: "is_bare x \<Longrightarrow> lookahead_hit (x # ys) = is_digit x"
  using bare_facts [of x] by (auto simp: lookahead_hit_def)

lemma backtrack_sub:
  "n \<le> length run \<Longrightarrow> \<forall>x\<in>set run. is_bare x \<Longrightarrow>
     backtrack n run (quote_pass tail) = backtrack n run tail"
proof (induction n)
  case 0
  then show ?case by simp
next
  case (Suc k)
  have "lookahead_hit (drop (Suc k) run @ quote_pass tail) = lookahead_hit (drop (Suc k) run @ tail)"
  proof (cases "drop (Suc k) run")
    case Nil
    then show ?thesis by (simp add: lookahead_sub)
  next
    case (Cons x xs)
    then have "x \<in> set run" by (metis in_set_dropD list.set_intros(1))
    with Suc.prems have "is_bare x" by blast
    with Cons show ?thesis by (simp add: lookahead_bare)
  qed
  with Suc show ?case by simp
qed

lemma run_sub:
  "takeWhile is_bare (quote_pass r) = takeWhile is_bare r
   \<and> dropWhile is_bare (quote_pass r) = quote_pass (dropWhile is_bare r)"
proof -
  define run where "run = takeWhile is_bare r"
  define tail where "tail = dropWhile is_bare r"
  have r: "r = run @ tail" by (simp add: run_def tail_def)
  have rb: "\<forall>x\<in>set run. is_bare x" unfolding run_def by (auto dest: set_takeWhileD)
  then have re: "\<forall>x\<in>set run. x \<noteq> CHR ''=''" using bare_facts by blast
  have sr: "quote_pass r = run @ quote_pass tail" unfolding r using aq_copy [OF re] by simp
  have th: "quote_pass tail = [] \<or> \<not> is_bare (hd (quote_pass tail))"
  proof (cases tail)
    case Nil
    then show ?thesis by simp
  next
    case (Cons c t)
    then have "\<not> is_bare c" using tail_def by (metis hd_dropWhile list.sel(1) list.simps(3))
    moreover from hd_sub [of tail] Cons have "hd_opt (quote_pass tail) = Some c" by simp
    ultimately show ?thesis by (cases "quote_pass tail") auto
  qed
  have "takeWhile is_bare (quote_pass tail) = []" "dropWhile is_bare (quote_pass tail) = quote_pass tail"
    using th by (cases "quote_pass tail"; auto)+
  with sr rb show ?thesis
    by (simp add: takeWhile_append2 dropWhile_append2 run_def [symmetric] tail_def [symmetric])
qed

lemma nomatch_sub:
  assumes "string_pattern_match (c # s) = None"
  shows "string_pattern_match (c # quote_pass s) = None"
proof (cases "c = CHR ''=''")
  case False
  then show ?thesis by (rule spm_head)
next
  case True
  show ?thesis
  proof (cases s)
    case Nil
    then show ?thesis by simp
  next
    case (Cons b r)
    show ?thesis
    proof (cases "b = CHR '' ''")
      case False
      from hd_sub [of s] Cons obtain r' where "quote_pass s = b # r'" by (cases "quote_pass s") auto
      with False show ?thesis by simp
    next
      case b: True
      then have "string_pattern_match (b # r) = None" by (simp add: spm_head)
      from aq_nomatch [OF this] have ss: "quote_pass s = b # quote_pass r" unfolding Cons by simp
      from assms True Cons b
      have g: "group_len (takeWhile is_bare r) (dropWhile is_bare r) = None"
        by (simp split: option.splits)
      have rb: "\<forall>x\<in>set (takeWhile is_bare r). is_bare x" by (auto dest: set_takeWhileD)
      have "group_len (takeWhile is_bare (quote_pass r)) (dropWhile is_bare (quote_pass r)) = None"
        using g run_sub [of r] backtrack_sub [OF le_refl rb, of "dropWhile is_bare r"]
        by (simp add: group_len_def)
      with True b ss show ?thesis by simp
    qed
  qed
qed

lemma aq_fixed: "add_quotes_to_strings (quote_pass s) = (quote_pass s, False)"
proof (induction s rule: add_quotes_to_strings.induct)
  case 1
  then show ?case by simp
next
  case (2 c s)
  show ?case
  proof (cases "string_pattern_match (c # s)")
    case None
    from 2(1) [OF None] have ih: "add_quotes_to_strings (quote_pass s) = (quote_pass s, False)" .
    have "quote_pass (c # s) = c # quote_pass s" using aq_nomatch [OF None] by simp
    moreover have "add_quotes_to_strings (c # quote_pass s) = (c # quote_pass s, False)"
      using aq_nomatch [OF nomatch_sub [OF None]] ih by simp
    ultimately show ?thesis by simp
  next
    case (Some a)
    obtain g rest where a: "a = (g, rest)" by (cases a)
    from 2(2) [OF Some a [symmetric]] have ih: "add_quotes_to_strings (quote_pass rest) = (quote_pass rest, False)" .
    from spm_Some [OF Some [unfolded a]] obtain r k where
      k: "group_len (takeWhile is_bare r) (dropWhile is_bare r) = Some k" and g: "g = take k r"
      by blast
    from group_len_bounds [OF k] have "k \<le> length (takeWhile is_bare r)" by simp
    then have "g = take k (takeWhile is_bare r)"
      unfolding g by (metis append_eq_conv_conj takeWhile_dropWhile_id take_append min.absorb2
          take_take length_take min.commute append_take_drop_id)
    then have gb: "\<forall>x\<in>set g. is_bare x" by (auto dest: in_set_takeD set_takeWhileD)
    then have ge: "\<forall>x\<in>set ([CHR '' '', CHR 0x27] @ g @ [CHR 0x27]). x \<noteq> CHR ''=''"
      using bare_facts by auto
    have out: "quote_pass (c # s) = CHR ''='' # ([CHR '' '', CHR 0x27] @ g @ [CHR 0x27]) @ quote_pass rest"
      using Some a by simp
    have "string_pattern_match (CHR ''='' # ([CHR '' '', CHR 0x27] @ g @ [CHR 0x27]) @ quote_pass rest) = None"
      by (simp add: group_len_def is_bare_def char_classes)
    from aq_nomatch [OF this] aq_copy [OF ge, of "quote_pass rest"] ih
    have "add_quotes_to_strings (CHR ''='' # ([CHR '' '', CHR 0x27] @ g @ [CHR 0x27]) @ quote_pass rest)
        = (CHR ''='' # ([CHR '' '', CHR 0x27] @ g @ [CHR 0x27]) @ quote_pass rest, False)"
      by simp
    with out show ?thesis by simp
  qed
qed

lemma aq_unchanged: "snd (add_quotes_to_strings s) = False \<Longrightarrow> quote_pass s = s"
  by (induction s rule: add_quotes_to_strings.induct) (auto split: option.splits prod.splits)

lemma replace_matches_flag:
  "snd (replace_matches t ms (q, w)) = False \<Longrightarrow> w = False \<and> fst (replace_matches t ms (q, w)) = q"
  by (induction ms arbitrary: q w) (auto split: if_splits)

lemma fix_table_names_flag:
  "snd (fix_table_names ts (q, w)) = False \<Longrightarrow> w = False \<and> fst (fix_table_names ts (q, w)) = q"
proof (induction ts arbitrary: q w)
  case Nil
  then show ?case by simp
next
  case (Cons t ts)
  obtain q' w' where r: "replace_matches t (finditer_table t None q False) (q, w) = (q', w')"
    by (cases "replace_matches t (finditer_table t None q False) (q, w)") auto
  from Cons.prems r have s: "snd (fix_table_names ts (q', w')) = False" by simp
  from Cons.IH [OF s] have w': "w' = False"
    and f: "fst (fix_table_names ts (q', w')) = q'" by blast+
  from replace_matches_flag [of t "finditer_table t None q False" q w] r w'
  have "w = False" "q' = q" by simp_all
  with f r show ?case by simp
qed

subsection \<open>C4: the envelope invariant\<close>

text \<open>
  C4. Every envelope the pipeline produces, be it the result of a request, an error
  envelope of any kind and message, or the empty-results envelope of a query, has
  exactly one of \<^verbatim>\<open>data\<close> and \<^verbatim>\<open>error\<close>; with \<^verbatim>\<open>success\<close> true it has
  \<^verbatim>\<open>data\<close> and \<^verbatim>\<open>query\<close> and no \<^verbatim>\<open>error\<close>, with \<^verbatim>\<open>success\<close> false it has \<^verbatim>\<open>error\<close>
  and no \<^verbatim>\<open>data\<close>.
\<close>

theorem envelope_invariant:
  "r \<in> {fst (service_process_query W), get_mock_response error_type custom_message,
        get_empty_results_response (Some q)}
   \<Longrightarrow> ((res_data r \<noteq> None) \<noteq> (res_error r \<noteq> None))
     \<and> (res_success r \<longrightarrow> res_data r \<noteq> None \<and> res_query r \<noteq> None \<and> res_error r = None)
     \<and> (\<not> res_success r \<longrightarrow> res_error r \<noteq> None \<and> res_data r = None)"
  using service_ok [of W] mock_ok [of error_type custom_message] empty_ok [of q]
  unfolding envelope_ok_def by blast

theorem envelope_invariant_witness:
  "res_success (fst (service_process_query
      (sample_world [''users''] [''query'' \<mapsto> JStr ''SELECT * FROM users''] Map.empty
         ''One user.'' users_db)))
   \<and> res_data (fst (service_process_query
      (sample_world [''users''] [''query'' \<mapsto> JStr ''SELECT * FROM users''] Map.empty
         ''One user.'' users_db))) \<noteq> None
   \<and> res_error (fst (service_process_query
      (sample_world [''users''] [''query'' \<mapsto> JStr ''SELECT * FROM users''] Map.empty
         ''One user.'' users_db))) = None"
proof -
  let ?W = "sample_world [''users''] [''query'' \<mapsto> JStr ''SELECT * FROM users''] Map.empty
         ''One user.'' users_db"
  have s: "res_success (fst (service_process_query ?W))"
    by (simp add: pipeline_defs validator_defs fixer_defs char_classes success_response_def)
  from envelope_invariant [of "fst (service_process_query ?W)" ?W] s
  show ?thesis by simp
qed

subsection \<open>C8: the generation response\<close>

text \<open>
  C8. When the completion call (with its fallback) yields a tool call
  \<^verbatim>\<open>generate_sql_query\<close> with parsed arguments: a non-empty \<^verbatim>\<open>error\<close> field makes
  the generation fail with that error, whatever the \<^verbatim>\<open>query\<close> field holds; and with no
  \<^verbatim>\<open>error\<close> (missing, null or empty) and no \<^verbatim>\<open>query\<close> (missing, null or empty) the
  generation fails with the message \<^verbatim>\<open>Generated SQL query is empty\<close>.
\<close>

theorem generation_error_precedence:
  "llm_client W h = None \<Longrightarrow> build_prompt W h GenerateSQL = None \<Longrightarrow>
   create_with_fallback W h GenerateSQL ''gpt-4'' = (Inr (tc # others), evs) \<Longrightarrow>
   fn_name tc = ''generate_sql_query'' \<Longrightarrow> fn_arguments tc = Inr arguments \<Longrightarrow>
   (\<forall>e. arguments ''error'' = Some (JStr e) \<and> e \<noteq> []
        \<longrightarrow> fst (generate_sql_query W h) = (False, e))
   \<and> (arguments ''error'' \<in> {None, Some JNull, Some (JStr [])}
       \<and> arguments ''query'' \<in> {None, Some JNull, Some (JStr [])}
       \<longrightarrow> fst (generate_sql_query W h) = (False, ''Generated SQL query is empty''))"
  by (auto simp: generate_sql_query_def generation_response_def generation_outcome_def
      truthy_def text_of_def Let_def)

theorem generation_error_precedence_witness:
  "fst (generate_sql_query
      (sample_world [] [''query'' \<mapsto> JStr ''SELECT 1'', ''error'' \<mapsto> JStr ''no such table'']
         Map.empty [] users_db) [])
     = (False, ''no such table'')
   \<and> fst (generate_sql_query
      (sample_world [] [''query'' \<mapsto> JStr [], ''error'' \<mapsto> JNull] Map.empty [] users_db) [])
     = (False, ''Generated SQL query is empty'')"
proof -
  let ?tc1 = "\<lparr> fn_name = ''generate_sql_query'', fn_arguments =
      Inr [''query'' \<mapsto> JStr ''SELECT 1'', ''error'' \<mapsto> JStr ''no such table''] \<rparr>"
  let ?W1 = "sample_world [] [''query'' \<mapsto> JStr ''SELECT 1'', ''error'' \<mapsto> JStr ''no such table'']
         Map.empty [] users_db"
  let ?tc2 = "\<lparr> fn_name = ''generate_sql_query'', fn_arguments =
      Inr [''query'' \<mapsto> JStr [], ''error'' \<mapsto> JNull] \<rparr>"
  let ?W2 = "sample_world [] [''query'' \<mapsto> JStr [], ''error'' \<mapsto> JNull] Map.empty [] users_db"
  have c1: "create_with_fallback ?W1 [] GenerateSQL ''gpt-4''
      = (Inr (?tc1 # []), [EvCompletion GenerateSQL ''gpt-4o''])"
    by (simp add: create_with_fallback_def sample_world_def)
  have c2: "create_with_fallback ?W2 [] GenerateSQL ''gpt-4''
      = (Inr (?tc2 # []), [EvCompletion GenerateSQL ''gpt-4o''])"
    by (simp add: create_with_fallback_def sample_world_def)
  have i1: "llm_client ?W1 [] = None" "build_prompt ?W1 [] GenerateSQL = None"
    by (simp_all add: sample_world_def)
  have i2: "llm_client ?W2 [] = None" "build_prompt ?W2 [] GenerateSQL = None"
    by (simp_all add: sample_world_def)
  from generation_error_precedence [OF i1 c1, of _] generation_error_precedence [OF i2 c2, of _]
  show ?thesis by simp
qed

subsection \<open>C9: empty results\<close>

text \<open>
  C9. Whenever the last call of the executor in a request returned zero rows, the request
  returns the empty-results envelope of that query: \<^verbatim>\<open>success\<close> is true, \<^verbatim>\<open>data\<close> is the
  empty list, \<^verbatim>\<open>summary\<close> is the fixed sentence \<^verbatim>\<open>No data was found for your query.\<close>,
  \<^verbatim>\<open>message\<close> is \<^verbatim>\<open>Query executed successfully but returned no results.\<close>, \<^verbatim>\<open>query\<close> is
  the statement that ran, and there is no \<^verbatim>\<open>error\<close>, \<^verbatim>\<open>record_count\<close>, \<^verbatim>\<open>original_query\<close>,
  \<^verbatim>\<open>was_debugged\<close> or \<^verbatim>\<open>mock\<close> entry (which sets it apart from the envelope of a request
  with rows). The trace holds no completion call of the summarizer.
\<close>

theorem empty_results_short_circuit:
  assumes "service_process_query W = (response, tr)"
    and "last_execute tr = Some (q, Inr [])"
  shows "response = get_empty_results_response (Some q)
     \<and> res_success response
     \<and> res_summary response = Some ''No data was found for your query.''
     \<and> res_message response = Some ''Query executed successfully but returned no results.''
     \<and> res_data response = Some []
     \<and> res_query response = Some q
     \<and> res_error response = None
     \<and> res_original_query response = None \<and> res_was_debugged response = None
     \<and> res_record_count response = None \<and> res_mock response = None
     \<and> (\<forall>ev\<in>set tr. \<not> is_summarize_call ev)"
proof -
  obtain gok sql gvs where g: "generate_sql_query W [] = ((gok, sql), gvs)"
    by (cases "generate_sql_query W []") auto
  have gc: "\<forall>x\<in>set gvs. is_completion_of GenerateSQL x"
    using generate_events [OF g] .
  then have gl: "last_execute gvs = None" by (rule last_execute_completions)
  have gs: "\<forall>x\<in>set gvs. \<not> is_summarize_call x"
    using gc completion_facts by fastforce
  have short: "response = get_empty_results_response (Some q)
     \<and> (\<forall>ev\<in>set tr. \<not> is_summarize_call ev)"
  proof (cases gok)
    case False
    with assms(1) g have "tr = gvs" by (simp add: service_process_query_def)
    with gl assms(2) show ?thesis by simp
  next
    case True
    obtain ok pq avs where a: "agent_process_query W gvs sql = ((ok, pq), avs)"
      by (cases "agent_process_query W gvs sql") auto
    note af = agent_facts [OF a]
    show ?thesis
    proof (cases ok)
      case False
      with assms(1) g True a have "tr = gvs @ avs" by (simp add: service_process_query_def)
      moreover from af False obtain q' e where "last_execute avs = Some (q', Inl e)" by blast
      ultimately show ?thesis using assms(2) by (simp add: last_execute_append)
    next
      case ok: True
      obtain r xvs where x: "execute_and_summarize W (gvs @ avs) pq = (r, xvs)"
        by (cases "execute_and_summarize W (gvs @ avs) pq") auto
      from assms(1) g True a ok x have tr: "tr = gvs @ avs @ xvs" and r: "response = r"
        by (simp_all add: service_process_query_def)
      from execute_stage_last [OF x] obtain q' res where
        l: "last_execute xvs = Some (q', res)"
        and e: "res = Inr [] \<longrightarrow> r = get_empty_results_response (Some q')
            \<and> (\<forall>ev\<in>set xvs. \<not> is_summarize_call ev)"
        by blast
      from tr l assms(2) have "q' = q" "res = Inr []" by (simp_all add: last_execute_append)
      with e r tr gs af show ?thesis by auto
    qed
  qed
  then show ?thesis by (simp add: get_empty_results_response_def)
qed

theorem empty_results_short_circuit_witness:
  "res_success (fst (service_process_query
      (sample_world [''users''] [''query'' \<mapsto> JStr ''SELECT * FROM users WHERE id < 0'']
         Map.empty ''Nothing.'' users_db)))
   \<and> res_summary (fst (service_process_query
      (sample_world [''users''] [''query'' \<mapsto> JStr ''SELECT * FROM users WHERE id < 0'']
         Map.empty ''Nothing.'' users_db))) = Some ''No data was found for your query.''
   \<and> res_data (fst (service_process_query
      (sample_world [''users''] [''query'' \<mapsto> JStr ''SELECT * FROM users WHERE id < 0'']
         Map.empty ''Nothing.'' users_db))) = Some []
   \<and> res_query (fst (service_process_query
      (sample_world [''users''] [''query'' \<mapsto> JStr ''SELECT * FROM users WHERE id < 0'']
         Map.empty ''Nothing.'' users_db))) = Some ''SELECT * FROM users WHERE id < 0''
   \<and> filter is_summarize_call (snd (service_process_query
      (sample_world [''users''] [''query'' \<mapsto> JStr ''SELECT * FROM users WHERE id < 0'']
         Map.empty ''Nothing.'' users_db))) = []"
proof -
  let ?W = "sample_world [''users''] [''query'' \<mapsto> JStr ''SELECT * FROM users WHERE id < 0'']
         Map.empty ''Nothing.'' users_db"
  have tr: "snd (service_process_query ?W) =
      [EvCompletion GenerateSQL ''gpt-4o'', EvValidate ''SELECT * FROM users WHERE id < 0'' True,
       EvExecute ''SELECT * FROM users WHERE id < 0'' (Inr [])]"
    by (simp add: pipeline_defs validator_defs fixer_defs char_classes)
  have l: "last_execute (snd (service_process_query ?W))
      = Some (''SELECT * FROM users WHERE id < 0'', Inr [])"
    unfolding tr by simp
  from empty_results_short_circuit [OF surjective_pairing l]
  show ?thesis by (simp add: filter_empty_conv get_empty_results_response_def)
qed

subsection \<open>C7: one repair per stage\<close>

text \<open>
  C7, as the code has it. In the trace of a request the validation stage asks for at most
  one repair and the execution stage asks for at most one, so at most two in all. No
  repair follows the repair of the execution stage: when the query it repaired fails on
  the database, or its repair fails validation, that failure is the last event of the
  request and the envelope is the failure \<^verbatim>\<open>execution_error\<close>. When a validation fails after
  the repair of the validation stage, it is the last event and the envelope is a failure.
  But when the query repaired by the validation stage passes validation and then fails on
  the database, the request does not end there: the execution stage asks for its one
  repair.
\<close>

theorem repair_at_most_once_per_stage:
  assumes "service_process_query W = (response, tr)"
  shows "repairs AfterValidation tr \<le> 1 \<and> repairs AfterExecution tr \<le> 1
    \<and> (\<forall>ev\<in>set (after_repair AfterExecution tr). \<not> is_debug ev)
    \<and> ((\<exists>ev\<in>set (after_repair AfterExecution tr). is_failed_execute ev)
         \<longrightarrow> failed_with ''execution_error'' response \<and> is_failed_execute (last tr))
    \<and> ((\<exists>ev\<in>set (after_repair AfterExecution tr). is_failed_validate ev)
         \<longrightarrow> failed_with ''execution_error'' response \<and> is_failed_validate (last tr))
    \<and> ((\<exists>ev\<in>set (after_repair AfterValidation tr). is_failed_validate ev)
         \<longrightarrow> (failed_with ''sql_validation_failed'' response
                \<or> failed_with ''execution_error'' response)
             \<and> is_failed_validate (last tr))
    \<and> length (filter is_debug tr) \<le> 2
    \<and> ((\<exists>ev\<in>set (after_repair AfterValidation tr). is_failed_execute ev)
         \<longrightarrow> repairs AfterExecution tr = 1)"
proof -
  let ?core = "repairs AfterValidation tr \<le> 1 \<and> repairs AfterExecution tr \<le> 1
    \<and> (\<forall>ev\<in>set (after_repair AfterExecution tr). \<not> is_debug ev)
    \<and> ((\<exists>ev\<in>set (after_repair AfterExecution tr). is_failed_execute ev)
         \<longrightarrow> failed_with ''execution_error'' response \<and> is_failed_execute (last tr))
    \<and> ((\<exists>ev\<in>set (after_repair AfterExecution tr). is_failed_validate ev)
         \<longrightarrow> failed_with ''execution_error'' response \<and> is_failed_validate (last tr))
    \<and> ((\<exists>ev\<in>set (after_repair AfterValidation tr). is_failed_validate ev)
         \<longrightarrow> (failed_with ''sql_validation_failed'' response
                \<or> failed_with ''execution_error'' response)
             \<and> is_failed_validate (last tr))"
  let ?again = "(\<exists>ev\<in>set (after_repair AfterValidation tr). is_failed_execute ev)
         \<longrightarrow> repairs AfterExecution tr = 1"
  obtain gok sql gvs where g: "generate_sql_query W [] = ((gok, sql), gvs)"
    by (cases "generate_sql_query W []") auto
  note gc = completions_no_repair [OF generate_events [OF g]]
  have gr: "repairs st gvs = 0" "after_repair st gvs = []" for st
    using gc by (simp_all add: repairs_none after_repair_none)
  have gn: "\<forall>x\<in>set gvs. \<not> is_repair st x" for st
    using gc by blast
  have both: "?core \<and> ?again"
  proof (cases gok)
    case False
    with assms g have "tr = gvs" by (simp add: service_process_query_def)
    with gr show ?thesis by simp
  next
    case True
    obtain ok pq avs where a: "agent_process_query W gvs sql = ((ok, pq), avs)"
      by (cases "agent_process_query W gvs sql") auto
    from agent_repairs [OF a] have
      a1: "avs \<noteq> []" and a2: "repairs AfterValidation avs \<le> 1"
      and a3: "\<forall>x\<in>set avs. \<not> is_repair AfterExecution x"
      and a4: "\<forall>x\<in>set (after_repair AfterValidation avs). is_internal x"
      and a5: "ok \<longrightarrow> (\<forall>x\<in>set (after_repair AfterValidation avs). \<not> is_failed_validate x)"
      and a6: "(\<exists>x\<in>set (after_repair AfterValidation avs). is_failed_validate x)
          \<longrightarrow> is_failed_validate (last avs)"
      by blast+
    have a7: "repairs AfterExecution avs = 0" "after_repair AfterExecution avs = []"
      using a3 by (simp_all add: repairs_none after_repair_none)
    have a8: "\<forall>x\<in>set (after_repair AfterValidation avs). \<not> is_failed_execute x"
      using a4 internal_facts by blast
    show ?thesis
    proof (cases ok)
      case False
      with assms g True a have tr: "tr = gvs @ avs"
        and r: "response = get_mock_response ''sql_validation_failed'' (Some pq)"
        by (simp_all add: service_process_query_def)
      have "after_repair AfterExecution tr = []"
        using tr gn [of AfterExecution] a7 by (simp add: after_repair_append)
      moreover have av: "after_repair AfterValidation tr = after_repair AfterValidation avs"
        using tr gn [of AfterValidation] by (simp add: after_repair_append)
      moreover have "last tr = last avs" using tr a1 by simp
      ultimately have ?core
        using tr r gr a2 a7 a6 mock_failed_with by (simp add: repairs_append)
      moreover have ?again using av a8 by simp
      ultimately show ?thesis by blast
    next
      case ok: True
      obtain r xvs where x: "execute_and_summarize W (gvs @ avs) pq = (r, xvs)"
        by (cases "execute_and_summarize W (gvs @ avs) pq") auto
      from assms g True a ok x have tr: "tr = gvs @ avs @ xvs" and r: "response = r"
        by (simp_all add: service_process_query_def)
      from exec_repairs [OF x] have
        x1: "xvs \<noteq> []" and x2: "repairs AfterExecution xvs \<le> 1"
        and x3: "\<forall>x\<in>set xvs. \<not> is_repair AfterValidation x"
        and x4: "\<forall>x\<in>set (after_repair AfterExecution xvs). \<not> is_debug x"
        and x5: "(\<exists>x\<in>set xvs. is_failed_validate x)
           \<longrightarrow> failed_with ''execution_error'' r \<and> is_failed_validate (last xvs)"
        and x6: "(\<exists>x\<in>set (after_repair AfterExecution xvs). is_failed_execute x)
           \<longrightarrow> failed_with ''execution_error'' r \<and> is_failed_execute (last xvs)"
        by blast+
      have x7: "repairs AfterValidation xvs = 0" "after_repair AfterValidation xvs = []"
        using x3 by (simp_all add: repairs_none after_repair_none)
      have l: "last tr = last xvs" using tr x1 by simp
      have ae: "after_repair AfterExecution tr = after_repair AfterExecution xvs"
        using tr gn [of AfterExecution] a3 by (simp add: after_repair_append)
      have sub: "set (after_repair AfterExecution xvs) \<subseteq> set xvs"
        unfolding after_repair_def
        by (meson set_drop_subset set_dropWhileD subsetI subset_trans)
      have av: "set (after_repair AfterValidation tr)
          \<subseteq> set (after_repair AfterValidation avs) \<union> set xvs"
        using tr gn [of AfterValidation] x7 by (auto simp: after_repair_append)
      have c1: "repairs AfterValidation tr \<le> 1" "repairs AfterExecution tr \<le> 1"
        using tr gr a2 a7 x2 x7 by (simp_all add: repairs_append)
      have c5: "(\<exists>ev\<in>set (after_repair AfterExecution tr). is_failed_validate ev)
         \<longrightarrow> failed_with ''execution_error'' response \<and> is_failed_validate (last tr)"
        using ae sub x5 l r by auto
      have c6: "(\<exists>ev\<in>set (after_repair AfterValidation tr). is_failed_validate ev)
         \<longrightarrow> (failed_with ''sql_validation_failed'' response
                \<or> failed_with ''execution_error'' response)
             \<and> is_failed_validate (last tr)"
      proof
        assume "\<exists>ev\<in>set (after_repair AfterValidation tr). is_failed_validate ev"
        with av a5 ok have "\<exists>x\<in>set xvs. is_failed_validate x" by blast
        with x5 l r show "(failed_with ''sql_validation_failed'' response
                \<or> failed_with ''execution_error'' response)
             \<and> is_failed_validate (last tr)" by simp
      qed
      have c7: ?again
      proof
        assume "\<exists>ev\<in>set (after_repair AfterValidation tr). is_failed_execute ev"
        with av a8 have "\<exists>x\<in>set xvs. is_failed_execute x" by blast
        from exec_failure_repaired [OF x this] tr gr a7
        show "repairs AfterExecution tr = 1" by (simp add: repairs_append)
      qed
      from c1 c5 c6 ae x4 x6 l r have ?core by simp
      with c7 show ?thesis by blast
    qed
  qed
  have "length (filter is_debug tr) \<le> 2"
    using both debug_count [of tr] by linarith
  with both show ?thesis by blast
qed

theorem repair_at_most_once_per_stage_witness:
  "repairs AfterValidation (snd (service_process_query
      (sample_world [''users''] [''query'' \<mapsto> JStr ''SELECT * FROM userz'']
         [''fixed_query'' \<mapsto> JStr ''SELECT * FROM users'', ''explanation'' \<mapsto> JStr ''typo'']
         ''One user.'' users_db))) \<le> 1
   \<and> repairs AfterExecution (snd (service_process_query
      (sample_world [''users''] [''query'' \<mapsto> JStr ''SELECT * FROM userz'']
         [''fixed_query'' \<mapsto> JStr ''SELECT * FROM users'', ''explanation'' \<mapsto> JStr ''typo'']
         ''One user.'' users_db))) = 1
   \<and> length (filter is_debug (snd (service_process_query
      (sample_world [''users''] [''query'' \<mapsto> JStr ''SELECT * FROM userz'']
         [''fixed_query'' \<mapsto> JStr ''SELECT * FROM users'', ''explanation'' \<mapsto> JStr ''typo'']
         ''One user.'' users_db)))) \<le> 2
   \<and> res_was_debugged (fst (service_process_query
      (sample_world [''users''] [''query'' \<mapsto> JStr ''SELECT * FROM userz'']
         [''fixed_query'' \<mapsto> JStr ''SELECT * FROM users'', ''explanation'' \<mapsto> JStr ''typo'']
         ''One user.'' users_db))) = Some True"
proof -
  let ?W = "sample_world [''users''] [''query'' \<mapsto> JStr ''SELECT * FROM userz'']
         [''fixed_query'' \<mapsto> JStr ''SELECT * FROM users'', ''explanation'' \<mapsto> JStr ''typo'']
         ''One user.'' users_db"
  have tr: "snd (service_process_query ?W) =
      [EvCompletion GenerateSQL ''gpt-4o'', EvValidate ''SELECT * FROM userz'' True,
       EvExecute ''SELECT * FROM userz'' (Inl ''relation does not exist''),
       EvDebug AfterExecution ''SELECT * FROM userz'' ''relation does not exist'',
       EvCompletion FixSQL ''gpt-4o'', EvValidate ''SELECT * FROM users'' True,
       EvExecute ''SELECT * FROM users'' (Inr [[(''id'', CObj 1), (''name'', CStr ''Ann'')]]),
       EvCompletion Summarize ''gpt-4o'']"
    and d: "res_was_debugged (fst (service_process_query ?W)) = Some True"
    by (simp_all add: pipeline_defs validator_defs fixer_defs char_classes
        debugged_response_def)
  have "repairs AfterExecution (snd (service_process_query ?W)) = 1"
    unfolding tr by (simp add: repairs_def)
  with repair_at_most_once_per_stage [OF surjective_pairing, of ?W] d
  show ?thesis by simp
qed

text \<open>
  C7 as stated does not hold: the claim ends a request with a failure as soon as a repaired
  query fails, with no further repair. Here the generator answers a \<^verbatim>\<open>DELETE\<close> on a table
  that does not exist; the validation stage repairs it to a \<^verbatim>\<open>SELECT\<close> on the same table,
  which is valid and fails on the database; the execution stage then asks for a second
  repair, whose query runs, and the request ends with a success envelope.
\<close>

theorem second_repair_after_repaired_query_failed:
  "snd (service_process_query
      (second_answer_world [''users''] [''query'' \<mapsto> JStr ''DELETE FROM userz'']
         [''fixed_query'' \<mapsto> JStr ''SELECT * FROM userz'']
         [''fixed_query'' \<mapsto> JStr ''SELECT * FROM users'']
         ''One user.'' users_db))
     = [EvCompletion GenerateSQL ''gpt-4o'',
        EvValidate ''DELETE FROM userz'' False,
        EvExecute ''DELETE FROM userz'' (Inl ''relation does not exist''),
        EvDebug AfterValidation ''DELETE FROM userz'' ''relation does not exist'',
        EvCompletion FixSQL ''gpt-4o'',
        EvValidate ''SELECT * FROM userz'' True,
        EvValidate ''SELECT * FROM userz'' True,
        EvExecute ''SELECT * FROM userz'' (Inl ''relation does not exist''),
        EvDebug AfterExecution ''SELECT * FROM userz'' ''relation does not exist'',
        EvCompletion FixSQL ''gpt-4o'',
        EvValidate ''SELECT * FROM users'' True,
        EvExecute ''SELECT * FROM users'' (Inr [[(''id'', CObj 1), (''name'', CStr ''Ann'')]]),
        EvCompletion Summarize ''gpt-4o'']
   \<and> res_success (fst (service_process_query
      (second_answer_world [''users''] [''query'' \<mapsto> JStr ''DELETE FROM userz'']
         [''fixed_query'' \<mapsto> JStr ''SELECT * FROM userz'']
         [''fixed_query'' \<mapsto> JStr ''SELECT * FROM users'']
         ''One user.'' users_db)))
   \<and> res_was_debugged (fst (service_process_query
      (second_answer_world [''users''] [''query'' \<mapsto> JStr ''DELETE FROM userz'']
         [''fixed_query'' \<mapsto> JStr ''SELECT * FROM userz'']
         [''fixed_query'' \<mapsto> JStr ''SELECT * FROM users'']
         ''One user.'' users_db))) = Some True
   \<and> res_query (fst (service_process_query
      (second_answer_world [''users''] [''query'' \<mapsto> JStr ''DELETE FROM userz'']
         [''fixed_query'' \<mapsto> JStr ''SELECT * FROM userz'']
         [''fixed_query'' \<mapsto> JStr ''SELECT * FROM users'']
         ''One user.'' users_db))) = Some ''SELECT * FROM users''"
  by (simp add: pipeline_defs validator_defs fixer_defs char_classes debugged_response_def
      second_answer_world_def)

subsection \<open>C3: blocked keywords\<close>

text \<open>
  C3. For every parser and every text \<open>pre @ mid @ post\<close> in which \<open>mid\<close> is a blocked
  keyword in any letter case, standing as a whole word (no word character just before
  it and none just after it), the validator returns invalid.
\<close>

theorem blocked_keyword_rejected:
  assumes "keyword \<in> set BLOCKED_SQL_KEYWORDS" "map upper_ascii mid = keyword"
    "pre = [] \<or> \<not> is_word (last pre)" "post = [] \<or> \<not> is_word (hd post)"
  shows "fst (validate_query prs (pre @ mid @ post)) = False"
proof -
  have "find (\<lambda>k. re_search_keyword k (pre @ mid @ post)) BLOCKED_SQL_KEYWORDS \<noteq> None"
    using blocked_keyword_found [OF assms] assms(1) by (auto simp: find_None_iff)
  then show ?thesis
    by (auto simp: validate_query_def split: sum.splits list.splits option.splits)
qed

theorem blocked_keyword_rejected_witness:
  "fst (validate_query sample_parse ''SELECT 1; drop TABLE users'') = False"
proof -
  have k: "''DROP'' \<in> set BLOCKED_SQL_KEYWORDS" by (simp add: BLOCKED_SQL_KEYWORDS_def)
  have m: "map upper_ascii ''drop'' = ''DROP''" by (simp add: char_classes bit_Suc_0_iff)
  have a: "''SELECT 1; '' = [] \<or> \<not> is_word (last ''SELECT 1; '')"
    by (simp add: char_classes)
  have b: "'' TABLE users'' = [] \<or> \<not> is_word (hd '' TABLE users'')"
    by (simp add: char_classes)
  from blocked_keyword_rejected [OF k m a b, of sample_parse] show ?thesis by simp
qed

subsection \<open>C1: a statement that failed validation is executed\<close>

text \<open>
  C1. The claim that no statement reaches the executor unless validation passed fails on
  the code: \<^verbatim>\<open>SQLAgent.process_query\<close> runs a query that failed validation "to get a more
  specific error" and, when the database does not raise, returns it as processed. Here
  the generator answers a \<^verbatim>\<open>DELETE\<close>: validation fails, the statement is executed twice
  and the request ends with a success envelope for it.
\<close>

theorem invalid_query_reaches_executor:
  "validate_query sample_parse ''DELETE FROM users RETURNING id''
     = (False, ''Only SELECT queries are allowed'')
   \<and> snd (service_process_query
        (sample_world [''users''] [''query'' \<mapsto> JStr ''DELETE FROM users RETURNING id'']
           Map.empty ''Deleted.'' obedient_db))
     = [EvCompletion GenerateSQL ''gpt-4o'',
        EvValidate ''DELETE FROM users RETURNING id'' False,
        EvExecute ''DELETE FROM users RETURNING id'' (Inr [[(''id'', CObj 1)]]),
        EvExecute ''DELETE FROM users RETURNING id'' (Inr [[(''id'', CObj 1)]]),
        EvCompletion Summarize ''gpt-4o'']
   \<and> res_success (fst (service_process_query
        (sample_world [''users''] [''query'' \<mapsto> JStr ''DELETE FROM users RETURNING id'']
           Map.empty ''Deleted.'' obedient_db)))
   \<and> res_query (fst (service_process_query
        (sample_world [''users''] [''query'' \<mapsto> JStr ''DELETE FROM users RETURNING id'']
           Map.empty ''Deleted.'' obedient_db)))
     = Some ''DELETE FROM users RETURNING id''"
  by (simp add: pipeline_defs validator_defs fixer_defs char_classes success_response_def
      obedient_db_def)

subsection \<open>C2: statements after the first one\<close>

text \<open>
  C2. The type check looks at the first parsed statement only, but nothing discards the
  statements after it: a text of two statements is valid, and the whole text, second
  statement included, is what the executor receives.
\<close>

theorem trailing_statement_reaches_executor:
  "map stmt_type (projr (sample_parse ''SELECT 1; SELECT 2''))
     = [Inr (Some ''SELECT''), Inr (Some ''SELECT'')]
   \<and> validate_query sample_parse ''SELECT 1; SELECT 2''
     = (True, ''Query validation successful'')
   \<and> snd (service_process_query
        (sample_world [''users''] [''query'' \<mapsto> JStr ''SELECT 1; SELECT 2'']
           Map.empty ''Done.'' obedient_db))
     = [EvCompletion GenerateSQL ''gpt-4o'',
        EvValidate ''SELECT 1; SELECT 2'' True,
        EvExecute ''SELECT 1; SELECT 2'' (Inr [[(''id'', CObj 1)]]),
        EvCompletion Summarize ''gpt-4o'']"
  by (simp add: pipeline_defs validator_defs fixer_defs char_classes success_response_def
      obedient_db_def)

subsection \<open>C6: the literal-quoting pass on a function call\<close>

text \<open>
  C6. A bare word directly followed by an opening parenthesis is not left unchanged: the
  group gives back its last character, the lookahead then sees a letter, and the
  shortened word is quoted.
\<close>

theorem function_call_is_quoted:
  "detect_and_fix_common_issues ''SELECT * FROM t WHERE a = lower(b)'' [''t'']
     = (''SELECT * FROM t WHERE a = 'lowe'r(b)'', True)"
  by (simp add: fixer_defs char_classes)

subsection \<open>C10: failures inside the summarizer\<close>




subsection \<open>C5: applying the heuristic fixer twice\<close>

text \<open>
  C5, as the code has it. On a query that the fixer reports as unchanged, the fixer returns
  the query itself, so applying it again returns the same text and reports no change. And
  Fix 1 alone (a schema without tables) is idempotent on every query: on its own output
  it finds nothing to quote, returns it as it is and reports no change.
\<close>

theorem fixer_idempotent_when_unchanged:
  "(\<not> snd (detect_and_fix_common_issues query tables)
      \<longrightarrow> detect_and_fix_common_issues query tables = (query, False)
        \<and> detect_and_fix_common_issues
             (fst (detect_and_fix_common_issues query tables)) tables
           = (fst (detect_and_fix_common_issues query tables), False))
   \<and> detect_and_fix_common_issues (fst (detect_and_fix_common_issues query [])) []
     = (fst (detect_and_fix_common_issues query []), False)"
proof -
  have a: "detect_and_fix_common_issues (fst (detect_and_fix_common_issues query [])) []
     = (fst (detect_and_fix_common_issues query []), False)"
    by (simp add: detect_and_fix_common_issues_def aq_fixed)
  have b: "detect_and_fix_common_issues query tables = (query, False)"
    if n: "\<not> snd (detect_and_fix_common_issues query tables)"
  proof -
    obtain q w where q: "add_quotes_to_strings query = (q, w)"
      by (cases "add_quotes_to_strings query") auto
    from n q have "snd (fix_table_names tables (q, w)) = False"
      by (simp add: detect_and_fix_common_issues_def)
    from fix_table_names_flag [OF this] have w: "w = False"
      and f: "fst (fix_table_names tables (q, w)) = q" by blast+
    from aq_unchanged [of query] q w have e: "q = query" by simp
    have "fix_table_names tables (q, w) = (q, False)"
      using f \<open>snd (fix_table_names tables (q, w)) = False\<close> by (simp add: prod_eq_iff)
    then show ?thesis
      unfolding detect_and_fix_common_issues_def q e by simp
  qed
  from a b show ?thesis by auto
qed

theorem fixer_idempotent_when_unchanged_witness:
  "detect_and_fix_common_issues ''SELECT * FROM users WHERE id > 5'' [''users'']
     = (''SELECT * FROM users WHERE id > 5'', False)
   \<and> detect_and_fix_common_issues ''WHERE name = ann AND age < 30'' [] = (''WHERE name = 'ann' AND age < 30'', True)
   \<and> detect_and_fix_common_issues ''WHERE name = 'ann' AND age < 30'' [] = (''WHERE name = 'ann' AND age < 30'', False)"
proof -
  have n: "\<not> snd (detect_and_fix_common_issues ''SELECT * FROM users WHERE id > 5'' [''users''])"
    by (simp add: fixer_defs char_classes)
  have f: "detect_and_fix_common_issues ''WHERE name = ann AND age < 30'' [] = (''WHERE name = 'ann' AND age < 30'', True)"
    by (simp add: fixer_defs char_classes)
  from fixer_idempotent_when_unchanged [of "''SELECT * FROM users WHERE id > 5''" "[''users'']"] n
  have 1: "detect_and_fix_common_issues ''SELECT * FROM users WHERE id > 5'' [''users'']
     = (''SELECT * FROM users WHERE id > 5'', False)" by blast
  from fixer_idempotent_when_unchanged [of "''WHERE name = ann AND age < 30''" "[]"] f
  have 2: "detect_and_fix_common_issues ''WHERE name = 'ann' AND age < 30'' [] = (''WHERE name = 'ann' AND age < 30'', False)"
    by simp
  from 1 2 f show ?thesis by simp
qed

text \<open>
  C5 as stated does not hold for Fix 2. \<^verbatim>\<open>str.replace\<close> rewrites every occurrence of the
  matched text, also inside a longer word that the pattern itself did not match: the first
  application turns \<^verbatim>\<open>userss\<close> into \<^verbatim>\<open>users\<close> and thereby \<^verbatim>\<open>usersss\<close> into \<^verbatim>\<open>userss\<close>, which
  the second application matches and changes, reporting a change again.
\<close>

theorem table_pass_not_idempotent:
  "detect_and_fix_common_issues ''SELECT * FROM userss, usersss'' [''users'']
     = (''SELECT * FROM users, userss'', True)
   \<and> detect_and_fix_common_issues ''SELECT * FROM users, userss'' [''users'']
     = (''SELECT * FROM users, users'', True)"
  by (simp add: fixer_defs char_classes)

end
